theory Spec2Isabelle
  imports Complex_Main "HOL-Library.Sublist" "HOL-Library.Word"
begin

section \<open>Strings\<close>

text \<open>
  A description is a \<^typ>\<open>string\<close>: a list of 8-bit characters, read as the code points
  U+0000 to U+00FF. \<open>String.prototype.toLowerCase\<close> maps, in that range, the letters
  A to Z and the Latin-1 capitals U+00C0 to U+00DE (without the multiplication sign
  U+00D7) to the code point 32 above, and leaves every other character alone.
\<close>

definition toLowerChar :: "char \<Rightarrow> char" where
  "toLowerChar c =
     (let n = (of_char c :: nat)
      in if (65 \<le> n \<and> n \<le> 90) \<or> (192 \<le> n \<and> n \<le> 222 \<and> n \<noteq> 215)
         then char_of (n + 32) else c)"

definition toLowerCase :: "string \<Rightarrow> string" where
  "toLowerCase s = map toLowerChar s"

text \<open>
  \<open>toUpperCase\<close> is applied by the code to the one-letter entries of the key table only;
  the model covers the letters a to z and leaves other characters alone.
\<close>

definition toUpperChar :: "char \<Rightarrow> char" where
  "toUpperChar c =
     (let n = (of_char c :: nat)
      in if 97 \<le> n \<and> n \<le> 122 then char_of (n - 32) else c)"

definition toUpperCase :: "string \<Rightarrow> string" where
  "toUpperCase s = map toUpperChar s"

text \<open>\<open>s.includes(sub)\<close>: \<open>sub\<close> occurs in \<open>s\<close> as a contiguous run, at some position.\<close>

fun includes_str :: "string \<Rightarrow> string \<Rightarrow> bool" where
  "includes_str [] sub = (sub = [])"
| "includes_str (c # cs) sub = (prefix sub (c # cs) \<or> includes_str cs sub)"

section \<open>The parameter extractor: \<open>ToneMusicGenerator._parseDescription\<close>\<close>

text \<open>
  The parameter object of the code has string-valued fields for key, scale, mood and
  complexity, a list of instrument names, and numbers for tempo and duration.
\<close>

record params =
  tempo :: int
  key :: string
  scale :: string
  instruments :: "string list"
  mood :: string
  duration :: rat
  complexity :: string

definition initial_params :: params where
  "initial_params =
     \<lparr> tempo = 120, key = ''C'', scale = ''major'', instruments = [],
       mood = ''neutral'', duration = 5, complexity = ''medium'' \<rparr>"

text \<open>Tempo detection: one \<open>if / else if\<close> chain, so the first test that holds decides.\<close>

definition detectTempo :: "string \<Rightarrow> params \<Rightarrow> params" where
  "detectTempo desc p =
     (if includes_str desc ''slow'' \<or> includes_str desc ''lento'' \<or> includes_str desc ''adagio''
        then p\<lparr>tempo := 60\<rparr>
      else if includes_str desc ''fast'' \<or> includes_str desc ''allegro'' \<or> includes_str desc ''presto''
        then p\<lparr>tempo := 160\<rparr>
      else if includes_str desc ''moderate'' \<or> includes_str desc ''andante''
        then p\<lparr>tempo := 100\<rparr>
      else if includes_str desc ''upbeat'' \<or> includes_str desc ''energetic''
        then p\<lparr>tempo := 140\<rparr>
      else p)"

definition keys :: "string list" where
  "keys = [''c'', ''d'', ''e'', ''f'', ''g'', ''a'', ''b'']"

text \<open>Key detection: the \<open>for ... of keys\<close> loop, left at the first key that matches.\<close>

fun detectKeyLoop :: "string \<Rightarrow> string list \<Rightarrow> params \<Rightarrow> params" where
  "detectKeyLoop desc [] p = p"
| "detectKeyLoop desc (k # ks) p =
     (if includes_str desc (''key of '' @ k) \<or> includes_str desc (k @ '' major'')
           \<or> includes_str desc (k @ '' minor'')
      then (let p1 = p\<lparr>key := toUpperCase k\<rparr>
            in if includes_str desc ''minor'' then p1\<lparr>scale := ''minor''\<rparr> else p1)
      else detectKeyLoop desc ks p)"

definition detectKey :: "string \<Rightarrow> params \<Rightarrow> params" where
  "detectKey desc p = detectKeyLoop desc keys p"

definition detectScale :: "string \<Rightarrow> params \<Rightarrow> params" where
  "detectScale desc p =
     (if includes_str desc ''minor'' then p\<lparr>scale := ''minor''\<rparr>
      else if includes_str desc ''major'' then p\<lparr>scale := ''major''\<rparr>
      else p)"

text \<open>\<open>if (cond) params.instruments.push(name)\<close>\<close>

definition pushIf :: "bool \<Rightarrow> string \<Rightarrow> params \<Rightarrow> params" where
  "pushIf cond name p = (if cond then p\<lparr>instruments := instruments p @ [name]\<rparr> else p)"

definition detectInstruments :: "string \<Rightarrow> params \<Rightarrow> params" where
  "detectInstruments desc p =
     (let p1 = pushIf (includes_str desc ''piano'') ''piano'' p;
          p2 = pushIf (includes_str desc ''guitar'') ''guitar'' p1;
          p3 = pushIf (includes_str desc ''drums'' \<or> includes_str desc ''drum'') ''drums'' p2;
          p4 = pushIf (includes_str desc ''bass'') ''bass'' p3;
          p5 = pushIf (includes_str desc ''violin'') ''violin'' p4;
          p6 = pushIf (includes_str desc ''flute'') ''flute'' p5;
          p7 = pushIf (includes_str desc ''trumpet'') ''trumpet'' p6;
          p8 = pushIf (includes_str desc ''saxophone'' \<or> includes_str desc ''sax'') ''saxophone'' p7
      in if length (instruments p8) = 0 then p8\<lparr>instruments := [''piano'', ''bass'']\<rparr>
         else p8)"

definition detectMood :: "string \<Rightarrow> params \<Rightarrow> params" where
  "detectMood desc p =
     (if includes_str desc ''happy'' \<or> includes_str desc ''joyful'' \<or> includes_str desc ''cheerful''
        then p\<lparr>mood := ''happy'', scale := ''major''\<rparr>
      else if includes_str desc ''sad'' \<or> includes_str desc ''melancholic'' \<or> includes_str desc ''somber''
        then p\<lparr>mood := ''sad'', scale := ''minor''\<rparr>
      else if includes_str desc ''energetic'' \<or> includes_str desc ''intense''
              \<or> includes_str desc ''powerful''
        then p\<lparr>mood := ''energetic'', tempo := max (tempo p) 140\<rparr>
      else if includes_str desc ''calm'' \<or> includes_str desc ''peaceful'' \<or> includes_str desc ''relaxing''
        then p\<lparr>mood := ''calm'', tempo := min (tempo p) 90\<rparr>
      else p)"

definition detectDuration :: "string \<Rightarrow> params \<Rightarrow> params" where
  "detectDuration desc p =
     (if includes_str desc ''short'' then p\<lparr>duration := 3\<rparr>
      else if includes_str desc ''long'' then p\<lparr>duration := 10\<rparr>
      else p)"

definition detectComplexity :: "string \<Rightarrow> params \<Rightarrow> params" where
  "detectComplexity desc p =
     (if includes_str desc ''simple'' \<or> includes_str desc ''minimal''
        then p\<lparr>complexity := ''simple''\<rparr>
      else if includes_str desc ''complex'' \<or> includes_str desc ''intricate''
        then p\<lparr>complexity := ''complex''\<rparr>
      else p)"

definition parseDescription :: "string \<Rightarrow> params" where
  "parseDescription description =
     (let desc = toLowerCase description
      in detectComplexity desc (detectDuration desc (detectMood desc
           (detectInstruments desc (detectScale desc (detectKey desc
             (detectTempo desc initial_params)))))))"

subsection \<open>Keyword tables, as the tests of the code use them\<close>

definition slow_keywords :: "string list" where
  "slow_keywords = [''slow'', ''lento'', ''adagio'']"

definition fast_keywords :: "string list" where
  "fast_keywords = [''fast'', ''allegro'', ''presto'']"

definition moderate_keywords :: "string list" where
  "moderate_keywords = [''moderate'', ''andante'']"

definition upbeat_keywords :: "string list" where
  "upbeat_keywords = [''upbeat'', ''energetic'']"

definition happy_keywords :: "string list" where
  "happy_keywords = [''happy'', ''joyful'', ''cheerful'']"

definition sad_keywords :: "string list" where
  "sad_keywords = [''sad'', ''melancholic'', ''somber'']"

definition energetic_keywords :: "string list" where
  "energetic_keywords = [''energetic'', ''intense'', ''powerful'']"

definition calm_keywords :: "string list" where
  "calm_keywords = [''calm'', ''peaceful'', ''relaxing'']"

definition mood_keywords :: "string list" where
  "mood_keywords = happy_keywords @ sad_keywords @ energetic_keywords @ calm_keywords"

definition instrument_keywords :: "string list" where
  "instrument_keywords =
     [''piano'', ''guitar'', ''drums'', ''drum'', ''bass'', ''violin'', ''flute'',
      ''trumpet'', ''saxophone'', ''sax'']"

definition key_phrases :: "string list" where
  "key_phrases =
     concat (map (\<lambda>k. [''key of '' @ k, k @ '' major'', k @ '' minor'']) keys)"

definition recognized_keywords :: "string list" where
  "recognized_keywords =
     slow_keywords @ fast_keywords @ moderate_keywords @ upbeat_keywords @ key_phrases
     @ [''minor'', ''major''] @ instrument_keywords @ mood_keywords
     @ [''short'', ''long'', ''simple'', ''minimal'', ''complex'', ''intricate'']"

text \<open>\<open>mentions desc kws\<close>: some keyword of the table occurs in the text.\<close>

definition mentions :: "string \<Rightarrow> string list \<Rightarrow> bool" where
  "mentions desc kws = list_ex (includes_str desc) kws"

text \<open>The tempo classes in the order the code tests them, each with the tempo it sets.\<close>

definition tempo_classes :: "(string list \<times> int) list" where
  "tempo_classes =
     [(slow_keywords, 60), (fast_keywords, 160), (moderate_keywords, 100),
      (upbeat_keywords, 140)]"

definition matching_tempos :: "string \<Rightarrow> int list" where
  "matching_tempos desc = map snd (filter (\<lambda>c. mentions desc (fst c)) tempo_classes)"

definition first_matching_tempo :: "string \<Rightarrow> int" where
  "first_matching_tempo desc =
     (case matching_tempos desc of [] \<Rightarrow> 120 | t # _ \<Rightarrow> t)"

text \<open>
  The reading of the specification: every class overwrites the tempo, so the last class
  that matches decides.
\<close>

definition spec_last_matching_tempo :: "string \<Rightarrow> int" where
  "spec_last_matching_tempo desc =
     (case rev (matching_tempos desc) of [] \<Rightarrow> 120 | t # _ \<Rightarrow> t)"


section \<open>The fallback manager: \<open>MusicGeneratorManager\<close>\<close>

text \<open>
  A generator may throw any JavaScript value. The manager tests the recorded value for
  truthiness (\<open>lastError || new Error(...)\<close>), so the model keeps the values apart by
  kind: \<open>Error\<close> objects (with their message), which are always truthy, and the primitive
  values, of which \<open>undefined\<close>, \<open>null\<close>, the empty string, zero and \<open>false\<close> are falsy.
\<close>

datatype js_value =
    ErrorObj string
  | Undefined
  | Null
  | Str string
  | Num int
  | Bool bool

fun truthy :: "js_value \<Rightarrow> bool" where
  "truthy (ErrorObj msg) = True"
| "truthy Undefined = False"
| "truthy Null = False"
| "truthy (Str s) = (s \<noteq> [])"
| "truthy (Num n) = (n \<noteq> 0)"
| "truthy (Bool b) = b"


text \<open>
  A generator is an object: \<open>oid\<close> is its identity, which is what \<open>===\<close> and \<open>!==\<close> compare.
  Its methods act on the world outside the manager (the audio context, the network), of
  type \<open>'w\<close>: \<open>isAvailable\<close> and \<open>generate\<close> take the world and return the new one, with
  either the value thrown (\<open>Inl\<close>) or the value returned (\<open>Inr\<close>). \<open>'p\<close> is the type of the
  progress callback, \<open>'r\<close> that of a generation result (an audio buffer or a URL).
\<close>

record ('w, 'p, 'r) generator =
  oid :: nat
  getName :: string
  isAvailable :: "'w \<Rightarrow> (js_value + bool) \<times> 'w"
  generate :: "string \<Rightarrow> 'p \<Rightarrow> 'w \<Rightarrow> (js_value + 'r) \<times> 'w"

text \<open>
  \<open>registerGenerator\<close> is documented to take a generator instance, so the registered list
  holds generators; \<open>currentGenerator\<close> and \<open>fallbackGenerator\<close> start as \<open>null\<close>.
\<close>

record ('w, 'p, 'r) manager =
  generators :: "('w, 'p, 'r) generator list"
  currentGenerator :: "('w, 'p, 'r) generator option"
  fallbackGenerator :: "('w, 'p, 'r) generator option"

definition new_manager :: "('w, 'p, 'r) manager" where
  "new_manager = \<lparr> generators = [], currentGenerator = None, fallbackGenerator = None \<rparr>"

definition registerGenerator ::
  "('w, 'p, 'r) manager \<Rightarrow> ('w, 'p, 'r) generator \<Rightarrow> bool \<Rightarrow> ('w, 'p, 'r) manager" where
  "registerGenerator m g isDefault =
     (let m1 = m\<lparr>generators := generators m @ [g]\<rparr>;
          m2 = (if isDefault \<or> Option.is_none (currentGenerator m1)
                then m1\<lparr>currentGenerator := Some g\<rparr> else m1)
      in if Option.is_none (fallbackGenerator m2) then m2\<lparr>fallbackGenerator := Some g\<rparr>
         else m2)"

text \<open>
  \<open>setGenerator\<close>: \<open>Array.prototype.find\<close> returns the first element that passes the test,
  or \<open>undefined\<close>. The result is the returned boolean with the manager afterwards.
\<close>

definition setGenerator ::
  "('w, 'p, 'r) manager \<Rightarrow> string \<Rightarrow> bool \<times> ('w, 'p, 'r) manager" where
  "setGenerator m name =
     (case find (\<lambda>g. getName g = name) (generators m) of
        Some g \<Rightarrow> (True, m\<lparr>currentGenerator := Some g\<rparr>)
      | None \<Rightarrow> (False, m))"

definition getCurrentGenerator :: "('w, 'p, 'r) manager \<Rightarrow> ('w, 'p, 'r) generator option" where
  "getCurrentGenerator m =
     (case currentGenerator m of Some g \<Rightarrow> Some g | None \<Rightarrow> fallbackGenerator m)"

text \<open>Strict equality of two references, either of which may be \<open>null\<close>.\<close>

fun same_object ::
  "('w, 'p, 'r) generator option \<Rightarrow> ('w, 'p, 'r) generator option \<Rightarrow> bool" where
  "same_object None None = True"
| "same_object (Some a) (Some b) = (oid a = oid b)"
| "same_object _ _ = False"

text \<open>\<open>.filter(g => g !== null)\<close>\<close>

fun filter_non_null :: "'a option list \<Rightarrow> 'a list" where
  "filter_non_null [] = []"
| "filter_non_null (None # xs) = filter_non_null xs"
| "filter_non_null (Some x # xs) = x # filter_non_null xs"

definition generatorsToTry :: "('w, 'p, 'r) manager \<Rightarrow> ('w, 'p, 'r) generator list" where
  "generatorsToTry m =
     filter_non_null
       (currentGenerator m
        # map Some (filter (\<lambda>g. \<not> same_object (Some g) (currentGenerator m)) (generators m)))"

text \<open>
  The \<open>for ... of generatorsToTry\<close> loop with its \<open>try / catch\<close>. The loop state is
  \<open>lastError\<close>, the world, and the console, on which each \<open>console.warn\<close> leaves the
  generator's name with the value caught. A value thrown by \<open>isAvailable\<close> is caught by
  the same \<open>catch\<close> as one thrown by \<open>generate\<close>. The loop ends with \<open>Some r\<close> when a
  generator returned \<open>r\<close>, and with \<open>None\<close> when the list is used up.
\<close>

fun tryGenerators ::
  "('w, 'p, 'r) generator list \<Rightarrow> string \<Rightarrow> 'p \<Rightarrow> js_value \<Rightarrow> 'w \<Rightarrow> (string \<times> js_value) list
   \<Rightarrow> 'r option \<times> js_value \<times> 'w \<times> (string \<times> js_value) list" where
  "tryGenerators [] description onProgress lastError w console = (None, lastError, w, console)"
| "tryGenerators (g # gs) description onProgress lastError w console =
     (case isAvailable g w of
        (Inl error, w1) \<Rightarrow>
          tryGenerators gs description onProgress error w1 (console @ [(getName g, error)])
      | (Inr available, w1) \<Rightarrow>
          if available then
            (case generate g description onProgress w1 of
               (Inl error, w2) \<Rightarrow>
                 tryGenerators gs description onProgress error w2
                   (console @ [(getName g, error)])
             | (Inr r, w2) \<Rightarrow> (Some r, lastError, w2, console))
          else tryGenerators gs description onProgress lastError w1 console)"

text \<open>
  \<open>generate\<close> of the manager: the value returned or thrown, the world afterwards, and the
  warnings of this call.
\<close>

definition manager_generate ::
  "('w, 'p, 'r) manager \<Rightarrow> string \<Rightarrow> 'p \<Rightarrow> 'w
   \<Rightarrow> (js_value + 'r) \<times> 'w \<times> (string \<times> js_value) list" where
  "manager_generate m description onProgress w =
     (case tryGenerators (generatorsToTry m) description onProgress Null w [] of
        (Some r, lastError, w', console) \<Rightarrow> (Inr r, w', console)
      | (None, lastError, w', console) \<Rightarrow>
          (Inl (if truthy lastError then lastError
                else ErrorObj ''No available music generators''), w', console))"


text \<open>
  The reading of the specification for the trial list: the selected generator, then the
  other registered generators in registration order, each once (\<open>dedup\<close> keeps the first
  registration of an object).
\<close>

fun dedup :: "('w, 'p, 'r) generator list \<Rightarrow> ('w, 'p, 'r) generator list" where
  "dedup [] = []"
| "dedup (g # gs) = g # dedup (filter (\<lambda>h. oid h \<noteq> oid g) gs)"

definition spec_trial_list :: "('w, 'p, 'r) manager \<Rightarrow> ('w, 'p, 'r) generator list" where
  "spec_trial_list m =
     (case currentGenerator m of
        None \<Rightarrow> dedup (generators m)
      | Some c \<Rightarrow> c # dedup (filter (\<lambda>g. oid g \<noteq> oid c) (generators m)))"

text \<open>
  A generator for concrete runs: its world is the list of the calls made so far (each call
  appends the generator's identity), its availability and the outcome of its \<open>generate\<close>
  are fixed.
\<close>

definition stub_generator ::
  "nat \<Rightarrow> string \<Rightarrow> js_value + bool \<Rightarrow> js_value + string
   \<Rightarrow> (nat list, unit, string) generator" where
  "stub_generator i name avail outcome =
     \<lparr> oid = i, getName = name,
       isAvailable = (\<lambda>w. (avail, w @ [i])),
       generate = (\<lambda>description onProgress w. (outcome, w @ [i])) \<rparr>"

text \<open>Concrete generators and managers, built by registration as \<open>initialize\<close> does.\<close>

definition gen_unavailable :: "(nat list, unit, string) generator" where
  "gen_unavailable = stub_generator 1 ''A'' (Inr False) (Inr ''a.wav'')"

definition gen_failing :: "(nat list, unit, string) generator" where
  "gen_failing = stub_generator 2 ''B'' (Inr True) (Inl (ErrorObj ''synthesis failed''))"

definition gen_working :: "(nat list, unit, string) generator" where
  "gen_working = stub_generator 3 ''C'' (Inr True) (Inr ''c.wav'')"

definition gen_offline :: "(nat list, unit, string) generator" where
  "gen_offline = stub_generator 4 ''D'' (Inr True) (Inl (ErrorObj ''server unreachable''))"

definition manager_abc :: "(nat list, unit, string) manager" where
  "manager_abc =
     registerGenerator (registerGenerator (registerGenerator new_manager
       gen_unavailable True) gen_failing False) gen_working False"

definition manager_twice :: "(nat list, unit, string) manager" where
  "manager_twice =
     registerGenerator (registerGenerator (registerGenerator new_manager
       gen_unavailable True) gen_working False) gen_working False"



section \<open>The WAV encoder: \<open>audioBufferToWav\<close>\<close>

subsection \<open>Numbers\<close>

text \<open>
  The samples of an \<open>AudioBuffer\<close> are the elements of a \<open>Float32Array\<close>: finite binary
  fractions, the two infinities, or NaN. A finite value is modelled by the rational number
  it denotes. The encoder compares a sample with \<open>-1\<close>, \<open>0\<close> and \<open>1\<close> and multiplies a
  value between \<open>-1\<close> and \<open>1\<close> by \<open>0x8000\<close> or \<open>0x7FFF\<close>; on a 32-bit float (24 significant
  bits) both products are exact in double precision (53 bits), so the rational product is
  the value the code computes. Negative zero behaves as zero in every operation used.
\<close>

datatype js_number = Fin rat | PosInf | NegInf | NaN

text \<open>The \<open><\<close> of JavaScript: false as soon as one side is NaN.\<close>

fun num_less :: "js_number \<Rightarrow> js_number \<Rightarrow> bool" where
  "num_less NaN y = False"
| "num_less x NaN = False"
| "num_less (Fin a) (Fin b) = (a < b)"
| "num_less (Fin a) PosInf = True"
| "num_less (Fin a) NegInf = False"
| "num_less PosInf y = False"
| "num_less NegInf NegInf = False"
| "num_less NegInf y = True"

text \<open>\<open>Math.min\<close> and \<open>Math.max\<close> of two numbers: NaN if either is NaN.\<close>

definition Math_min :: "js_number \<Rightarrow> js_number \<Rightarrow> js_number" where
  "Math_min x y = (if x = NaN \<or> y = NaN then NaN else if num_less y x then y else x)"

definition Math_max :: "js_number \<Rightarrow> js_number \<Rightarrow> js_number" where
  "Math_max x y = (if x = NaN \<or> y = NaN then NaN else if num_less x y then y else x)"

text \<open>\<open>x * k\<close> for a positive constant \<open>k\<close>.\<close>

fun num_times :: "js_number \<Rightarrow> rat \<Rightarrow> js_number" where
  "num_times (Fin a) k = Fin (a * k)"
| "num_times PosInf k = PosInf"
| "num_times NegInf k = NegInf"
| "num_times NaN k = NaN"

text \<open>Rounding towards zero, as the integer conversions of JavaScript do.\<close>

definition trunc :: "rat \<Rightarrow> int" where
  "trunc r = (if r < 0 then \<lceil>r\<rceil> else \<lfloor>r\<rfloor>)"

text \<open>
  \<open>ToInt16\<close>, as the unsigned 16-bit pattern that is stored: NaN and the infinities give 0,
  a finite number is truncated and reduced modulo \<open>2^16\<close>.
\<close>

fun ToInt16_bits :: "js_number \<Rightarrow> nat" where
  "ToInt16_bits (Fin r) = nat (trunc r mod 65536)"
| "ToInt16_bits x = 0"

subsection \<open>The \<open>DataView\<close>\<close>

type_synonym byte = "8 word"

datatype js_exception = RangeError | IndexSizeError

text \<open>
  \<open>ToUint16\<close> and \<open>ToUint32\<close> of a finite number: the integer part, reduced modulo \<open>2^16\<close>
  or \<open>2^32\<close>. The header values are finite numbers: sums and products of the buffer's
  attributes.
\<close>

definition ToUint16 :: "rat \<Rightarrow> nat" where
  "ToUint16 v = nat (trunc v mod 65536)"

definition ToUint32 :: "rat \<Rightarrow> nat" where
  "ToUint32 v = nat (trunc v mod 4294967296)"

text \<open>The bytes of an unsigned value, least significant first.\<close>

definition le_bytes16 :: "nat \<Rightarrow> byte list" where
  "le_bytes16 v = (let u = v mod 65536 in [of_nat (u mod 256), of_nat (u div 256)])"

definition le_bytes32 :: "nat \<Rightarrow> byte list" where
  "le_bytes32 v =
     (let u = v mod 4294967296
      in [of_nat (u mod 256), of_nat (u div 256 mod 256), of_nat (u div 65536 mod 256),
          of_nat (u div 16777216)])"

text \<open>The byte order of a multi-byte store: the \<open>littleEndian\<close> argument.\<close>

definition ordered :: "bool \<Rightarrow> byte list \<Rightarrow> byte list" where
  "ordered littleEndian bs = (if littleEndian then bs else rev bs)"

text \<open>
  A store of some bytes at an offset: a \<open>RangeError\<close> when it would pass the end of the
  buffer.
\<close>

definition setBytes :: "byte list \<Rightarrow> nat \<Rightarrow> byte list \<Rightarrow> js_exception + byte list" where
  "setBytes view byteOffset bs =
     (if byteOffset + length bs \<le> length view
      then Inr (take byteOffset view @ bs @ drop (byteOffset + length bs) view)
      else Inl RangeError)"

definition setUint8 :: "byte list \<Rightarrow> nat \<Rightarrow> nat \<Rightarrow> js_exception + byte list" where
  "setUint8 view byteOffset v = setBytes view byteOffset [of_nat (v mod 256)]"

definition setUint16 :: "byte list \<Rightarrow> nat \<Rightarrow> rat \<Rightarrow> bool \<Rightarrow> js_exception + byte list" where
  "setUint16 view byteOffset v littleEndian =
     setBytes view byteOffset (ordered littleEndian (le_bytes16 (ToUint16 v)))"

definition setUint32 :: "byte list \<Rightarrow> nat \<Rightarrow> rat \<Rightarrow> bool \<Rightarrow> js_exception + byte list" where
  "setUint32 view byteOffset v littleEndian =
     setBytes view byteOffset (ordered littleEndian (le_bytes32 (ToUint32 v)))"

definition setInt16 ::
  "byte list \<Rightarrow> nat \<Rightarrow> js_number \<Rightarrow> bool \<Rightarrow> js_exception + byte list" where
  "setInt16 view byteOffset x littleEndian =
     setBytes view byteOffset (ordered littleEndian (le_bytes16 (ToInt16_bits x)))"

text \<open>
  \<open>new ArrayBuffer(n)\<close>: \<open>n\<close> zero bytes, or a \<open>RangeError\<close> for a length above
  \<open>2^53 - 1\<close>. (What an engine can allocate is less; the model has no memory limit.)
\<close>

definition newArrayBuffer :: "nat \<Rightarrow> js_exception + byte list" where
  "newArrayBuffer n = (if n \<le> 2 ^ 53 - 1 then Inr (replicate n 0) else Inl RangeError)"

subsection \<open>Sequencing with exceptions\<close>

definition bindE :: "'e + 'a \<Rightarrow> ('a \<Rightarrow> 'e + 'b) \<Rightarrow> 'e + 'b" where
  "bindE m f = (case m of Inl e \<Rightarrow> Inl e | Inr x \<Rightarrow> f x)"

text \<open>A loop over the elements of a list, threading a state, left at the first exception.\<close>

fun foldE :: "('a \<Rightarrow> 's \<Rightarrow> 'e + 's) \<Rightarrow> 'a list \<Rightarrow> 's \<Rightarrow> 'e + 's" where
  "foldE f [] s = Inr s"
| "foldE f (x # xs) s = bindE (f x s) (foldE f xs)"

subsection \<open>The encoder\<close>

text \<open>
  The attributes the encoder reads from the buffer. \<open>length\<close> and \<open>numberOfChannels\<close> are
  unsigned integers. \<open>sampleRate\<close> is a 32-bit float, finite for every buffer, and need not
  be a whole number: it is modelled by the rational number it denotes.
\<close>

record AudioBuffer =
  length_buf :: nat
  numberOfChannels :: nat
  sampleRate :: rat
  channelData :: "js_number list list"

definition getChannelData :: "AudioBuffer \<Rightarrow> nat \<Rightarrow> js_exception + js_number list" where
  "getChannelData buffer i =
     (if i < length (channelData buffer) then Inr (channelData buffer ! i)
      else Inl IndexSizeError)"

text \<open>
  Reading a typed array past its end gives \<open>undefined\<close>, which \<open>Math.min\<close> turns into NaN.
\<close>

definition sample_at :: "js_number list \<Rightarrow> nat \<Rightarrow> js_number" where
  "sample_at ch i = (if i < length ch then ch ! i else NaN)"

text \<open>The local function \<open>writeString\<close>, with the view and \<open>pos\<close> it updates.\<close>

fun writeString :: "string \<Rightarrow> byte list \<times> nat \<Rightarrow> js_exception + byte list \<times> nat" where
  "writeString [] (view, pos) = Inr (view, pos)"
| "writeString (c # cs) (view, pos) =
     bindE (setUint8 view pos (of_char c)) (\<lambda>view. writeString cs (view, pos + 1))"

text \<open>\<open>for (i < numberOfChannels) channels.push(buffer.getChannelData(i))\<close>\<close>

definition pushChannel ::
  "AudioBuffer \<Rightarrow> nat \<Rightarrow> js_number list list \<Rightarrow> js_exception + js_number list list" where
  "pushChannel buffer i channels =
     bindE (getChannelData buffer i) (\<lambda>ch. Inr (channels @ [ch]))"

text \<open>
  The body of the inner loop. \<open>channels\<close> has \<open>numberOfChannels\<close> entries when the loops
  run, so \<open>channels[channel]\<close> is always an array.
\<close>

definition writeSample ::
  "js_number list list \<Rightarrow> nat \<Rightarrow> nat \<Rightarrow> byte list \<times> nat \<Rightarrow> js_exception + byte list \<times> nat"
  where
  "writeSample channels i channel st =
     (case st of (view, pos) \<Rightarrow>
        let sample = Math_max (Fin (- 1)) (Math_min (Fin 1) (sample_at (channels ! channel) i));
            sample = (if num_less sample (Fin 0) then num_times sample 32768
                      else num_times sample 32767)
        in bindE (setInt16 view pos sample True) (\<lambda>view. Inr (view, pos + 2)))"

definition writeFrame ::
  "js_number list list \<Rightarrow> nat \<Rightarrow> nat \<Rightarrow> byte list \<times> nat \<Rightarrow> js_exception + byte list \<times> nat"
  where
  "writeFrame channels channelCount i st =
     foldE (writeSample channels i) [0..<channelCount] st"

text \<open>
  A header field: \<open>view.setUint32(pos, v, true); pos += 4;\<close> and
  \<open>view.setUint16(pos, v, true); pos += 2;\<close>
\<close>

definition putUint32 :: "rat \<Rightarrow> byte list \<times> nat \<Rightarrow> js_exception + byte list \<times> nat" where
  "putUint32 v st =
     (case st of (view, pos) \<Rightarrow>
        bindE (setUint32 view pos v True) (\<lambda>view. Inr (view, pos + 4)))"

definition putUint16 :: "rat \<Rightarrow> byte list \<times> nat \<Rightarrow> js_exception + byte list \<times> nat" where
  "putUint16 v st =
     (case st of (view, pos) \<Rightarrow>
        bindE (setUint16 view pos v True) (\<lambda>view. Inr (view, pos + 2)))"

text \<open>
  The encoder. The state threaded through the statements is the buffer behind \<open>view\<close>
  with \<open>pos\<close>; the result is the buffer. The header values are computed exactly, as
  double precision does while the integers stay below \<open>2^53\<close> and the product of the
  sample rate (24 significant bits) with the channel count fits 53 bits.
\<close>

definition audioBufferToWav :: "AudioBuffer \<Rightarrow> js_exception + byte list" where
  "audioBufferToWav buffer =
     (let len = length_buf buffer;
          channelCount = numberOfChannels buffer;
          rate = sampleRate buffer
      in
      bindE (newArrayBuffer (44 + len * channelCount * 2)) (\<lambda>arrayBuffer.
      bindE (writeString ''RIFF'' (arrayBuffer, 0)) (\<lambda>st.
      bindE (putUint32 (of_nat (36 + len * channelCount * 2)) st) (\<lambda>st.
      bindE (writeString ''WAVE'' st) (\<lambda>st.
      bindE (writeString ''fmt '' st) (\<lambda>st.
      bindE (putUint32 16 st) (\<lambda>st.
      bindE (putUint16 1 st) (\<lambda>st.
      bindE (putUint16 (of_nat channelCount) st) (\<lambda>st.
      bindE (putUint32 rate st) (\<lambda>st.
      bindE (putUint32 (rate * of_nat channelCount * 2) st) (\<lambda>st.
      bindE (putUint16 (of_nat (channelCount * 2)) st) (\<lambda>st.
      bindE (putUint16 16 st) (\<lambda>st.
      bindE (writeString ''data'' st) (\<lambda>st.
      bindE (putUint32 (of_nat (len * channelCount * 2)) st) (\<lambda>st.
      bindE (foldE (pushChannel buffer) [0..<channelCount] []) (\<lambda>channels.
      bindE (foldE (writeFrame channels channelCount) [0..<len] st) (\<lambda>st.
      Inr (fst st))))))))))))))))))"

subsection \<open>Reading a WAV file back\<close>

definition u16_at :: "byte list \<Rightarrow> nat \<Rightarrow> nat" where
  "u16_at bytes k = unat (bytes ! k) + 256 * unat (bytes ! (k + 1))"

definition u32_at :: "byte list \<Rightarrow> nat \<Rightarrow> nat" where
  "u32_at bytes k =
     unat (bytes ! k) + 256 * unat (bytes ! (k + 1)) + 65536 * unat (bytes ! (k + 2))
     + 16777216 * unat (bytes ! (k + 3))"

definition s16_at :: "byte list \<Rightarrow> nat \<Rightarrow> int" where
  "s16_at bytes k =
     (let u = int (u16_at bytes k) in if u < 32768 then u else u - 65536)"

definition ascii :: "string \<Rightarrow> byte list" where
  "ascii s = map of_char s"

definition slice :: "byte list \<Rightarrow> nat \<Rightarrow> nat \<Rightarrow> byte list" where
  "slice bytes k n = take n (drop k bytes)"

text \<open>
  The sample conversion in the words of the specification: clamp to \<open>[-1, 1]\<close>, scale a
  negative value by 32768 and any other by 32767, keep the integer part. The infinities
  clamp to \<open>-1\<close> and \<open>1\<close>; a NaN sample, which cannot be clamped, is stored as 0.
\<close>

fun spec_pcm16 :: "js_number \<Rightarrow> int" where
  "spec_pcm16 (Fin r) =
     (let c = max (- 1) (min 1 r)
      in if c < 0 then trunc (c * 32768) else trunc (c * 32767))"
| "spec_pcm16 PosInf = 32767"
| "spec_pcm16 NegInf = - 32768"
| "spec_pcm16 NaN = 0"

text \<open>
  The buffers the encoder is specified for: as many channels as \<open>numberOfChannels\<close> says,
  each of \<open>length\<close> samples.
\<close>

definition consistent :: "AudioBuffer \<Rightarrow> bool" where
  "consistent buffer =
     (length (channelData buffer) = numberOfChannels buffer
      \<and> list_all (\<lambda>ch. length ch = length_buf buffer) (channelData buffer))"

definition dataBytes :: "AudioBuffer \<Rightarrow> nat" where
  "dataBytes buffer = length_buf buffer * numberOfChannels buffer * 2"

text \<open>The byte rate, as the encoder computes it.\<close>

definition byteRate :: "AudioBuffer \<Rightarrow> rat" where
  "byteRate buffer = sampleRate buffer * of_nat (numberOfChannels buffer) * 2"

text \<open>The header values fit the fields that hold them.\<close>

definition header_fits :: "AudioBuffer \<Rightarrow> bool" where
  "header_fits buffer =
     (numberOfChannels buffer * 2 < 2 ^ 16
      \<and> 0 \<le> sampleRate buffer
      \<and> sampleRate buffer < 2 ^ 32
      \<and> byteRate buffer < 2 ^ 32
      \<and> 36 + dataBytes buffer < 2 ^ 32)"

text \<open>
  The bytes the encoder is specified to produce: the 44-byte header, then the frames in
  order, each with one 16-bit sample per channel.
\<close>

definition header_bytes :: "AudioBuffer \<Rightarrow> byte list" where
  "header_bytes buffer =
     ascii ''RIFF'' @ le_bytes32 (ToUint32 (of_nat (36 + dataBytes buffer)))
     @ ascii ''WAVE'' @ ascii ''fmt ''
     @ le_bytes32 (ToUint32 16) @ le_bytes16 (ToUint16 1)
     @ le_bytes16 (ToUint16 (of_nat (numberOfChannels buffer)))
     @ le_bytes32 (ToUint32 (sampleRate buffer))
     @ le_bytes32 (ToUint32 (byteRate buffer))
     @ le_bytes16 (ToUint16 (of_nat (numberOfChannels buffer * 2)))
     @ le_bytes16 (ToUint16 16) @ ascii ''data''
     @ le_bytes32 (ToUint32 (of_nat (dataBytes buffer)))"

text \<open>What the loop body computes from a sample before the store.\<close>

definition scaled_sample :: "js_number \<Rightarrow> js_number" where
  "scaled_sample x =
     (let sample = Math_max (Fin (- 1)) (Math_min (Fin 1) x)
      in if num_less sample (Fin 0) then num_times sample 32768
         else num_times sample 32767)"

definition sample_bytes :: "js_number \<Rightarrow> byte list" where
  "sample_bytes x = le_bytes16 (ToInt16_bits (scaled_sample x))"

definition frame_bytes :: "js_number list list \<Rightarrow> nat \<Rightarrow> nat \<Rightarrow> byte list" where
  "frame_bytes channels channelCount i =
     concat (map (\<lambda>channel. sample_bytes (sample_at (channels ! channel) i))
               [0..<channelCount])"

definition data_bytes :: "AudioBuffer \<Rightarrow> byte list" where
  "data_bytes buffer =
     concat (map (frame_bytes (channelData buffer) (numberOfChannels buffer))
               [0..<length_buf buffer])"

text \<open>
  Writing some bytes at \<open>pos\<close> and moving \<open>pos\<close> past them: every statement of the encoder
  that touches the view is of this form.
\<close>

definition emit :: "byte list \<Rightarrow> byte list \<times> nat \<Rightarrow> js_exception + byte list \<times> nat" where
  "emit bs st =
     (case st of (view, pos) \<Rightarrow>
        bindE (setBytes view pos bs) (\<lambda>view. Inr (view, pos + length bs)))"

text \<open>Buffers for concrete runs.\<close>

definition stereo_buffer :: AudioBuffer where
  "stereo_buffer =
     \<lparr> length_buf = 2, numberOfChannels = 2, sampleRate = 44100,
       channelData = [[Fin (1 / 2), Fin (- 3 / 2)], [NaN, PosInf]] \<rparr>"

definition fractional_buffer :: AudioBuffer where
  "fractional_buffer =
     \<lparr> length_buf = 1, numberOfChannels = 1, sampleRate = 44101 / 2,
       channelData = [[Fin (- 1 / 4)]] \<rparr>"

definition huge_buffer :: AudioBuffer where
  "huge_buffer =
     \<lparr> length_buf = 2 ^ 31, numberOfChannels = 1, sampleRate = 48000,
       channelData = [replicate (2 ^ 31) (Fin 0)] \<rparr>"

section \<open>Properties of the parameter extractor\<close>

text \<open>\<open>includes_str\<close> is the contiguous-sublist relation.\<close>

lemma includes_str_sublist: "includes_str s sub = sublist sub s"
  by (induction s) (simp_all add: sublist_Cons_right)

subsection \<open>What each detection step leaves alone\<close>

lemma detectTempo_frame:
  "key (detectTempo desc p) = key p" "scale (detectTempo desc p) = scale p"
  "instruments (detectTempo desc p) = instruments p" "mood (detectTempo desc p) = mood p"
  "duration (detectTempo desc p) = duration p" "complexity (detectTempo desc p) = complexity p"
  by (simp_all add: detectTempo_def)

lemma detectKeyLoop_frame:
  "tempo (detectKeyLoop desc ks p) = tempo p"
  "instruments (detectKeyLoop desc ks p) = instruments p"
  "mood (detectKeyLoop desc ks p) = mood p"
  "duration (detectKeyLoop desc ks p) = duration p"
  "complexity (detectKeyLoop desc ks p) = complexity p"
  by (induction ks) (simp_all add: Let_def)

lemma detectScale_frame:
  "tempo (detectScale desc p) = tempo p" "key (detectScale desc p) = key p"
  "instruments (detectScale desc p) = instruments p" "mood (detectScale desc p) = mood p"
  "duration (detectScale desc p) = duration p" "complexity (detectScale desc p) = complexity p"
  by (simp_all add: detectScale_def)

lemma pushIf_frame:
  "tempo (pushIf c n p) = tempo p" "key (pushIf c n p) = key p"
  "scale (pushIf c n p) = scale p" "mood (pushIf c n p) = mood p"
  "duration (pushIf c n p) = duration p" "complexity (pushIf c n p) = complexity p"
  by (simp_all add: pushIf_def)

lemma detectInstruments_frame:
  "tempo (detectInstruments desc p) = tempo p" "key (detectInstruments desc p) = key p"
  "scale (detectInstruments desc p) = scale p" "mood (detectInstruments desc p) = mood p"
  "duration (detectInstruments desc p) = duration p"
  "complexity (detectInstruments desc p) = complexity p"
  by (simp_all add: detectInstruments_def Let_def pushIf_frame)

lemma detectMood_frame:
  "key (detectMood desc p) = key p" 
  "instruments (detectMood desc p) = instruments p"
  "duration (detectMood desc p) = duration p" "complexity (detectMood desc p) = complexity p"
  by (simp_all add: detectMood_def)

lemma detectDuration_frame:
  "tempo (detectDuration desc p) = tempo p" "key (detectDuration desc p) = key p"
  "scale (detectDuration desc p) = scale p" "mood (detectDuration desc p) = mood p"
  "instruments (detectDuration desc p) = instruments p"
  "complexity (detectDuration desc p) = complexity p"
  by (simp_all add: detectDuration_def)

lemma detectComplexity_frame:
  "tempo (detectComplexity desc p) = tempo p" "key (detectComplexity desc p) = key p"
  "scale (detectComplexity desc p) = scale p" "mood (detectComplexity desc p) = mood p"
  "instruments (detectComplexity desc p) = instruments p"
  "duration (detectComplexity desc p) = duration p"
  by (simp_all add: detectComplexity_def)

lemmas frame = detectTempo_frame detectKeyLoop_frame detectScale_frame detectInstruments_frame
  detectMood_frame detectDuration_frame detectComplexity_frame


lemma tempo_detectMood:
  "tempo (detectMood desc p) =
     (if mentions desc happy_keywords \<or> mentions desc sad_keywords then tempo p
      else if mentions desc energetic_keywords then max (tempo p) 140
      else if mentions desc calm_keywords then min (tempo p) 90
      else tempo p)"
  by (simp add: detectMood_def mentions_def happy_keywords_def sad_keywords_def
      energetic_keywords_def calm_keywords_def)

lemma scale_detectMood:
  "scale (detectMood desc p) =
     (if mentions desc happy_keywords then ''major''
      else if mentions desc sad_keywords then ''minor''
      else scale p)"
  by (simp add: detectMood_def mentions_def happy_keywords_def sad_keywords_def)

lemma tempo_detectTempo:
  "tempo (detectTempo desc initial_params) = first_matching_tempo desc"
  by (simp add: detectTempo_def initial_params_def first_matching_tempo_def matching_tempos_def
      tempo_classes_def mentions_def slow_keywords_def fast_keywords_def moderate_keywords_def
      upbeat_keywords_def)

lemma parse_tempo:
  "tempo (parseDescription d) =
     tempo (detectMood (toLowerCase d) (detectInstruments (toLowerCase d)
       (detectScale (toLowerCase d) (detectKey (toLowerCase d)
          (detectTempo (toLowerCase d) initial_params)))))"
  by (simp add: parseDescription_def Let_def frame)

lemma mentions_append: "mentions d (xs @ ys) = (mentions d xs \<or> mentions d ys)"
  by (simp add: mentions_def)

lemma detectTempo_none:
  "\<not> mentions d slow_keywords \<Longrightarrow> \<not> mentions d fast_keywords \<Longrightarrow>
   \<not> mentions d moderate_keywords \<Longrightarrow> \<not> mentions d upbeat_keywords \<Longrightarrow>
   detectTempo d p = p"
  by (simp add: detectTempo_def mentions_def slow_keywords_def fast_keywords_def
      moderate_keywords_def upbeat_keywords_def)

lemma detectKey_none: "\<not> mentions d key_phrases \<Longrightarrow> detectKey d p = p"
  by (simp add: detectKey_def mentions_def key_phrases_def keys_def)

lemma detectScale_none: "\<not> mentions d [''minor'', ''major''] \<Longrightarrow> detectScale d p = p"
  by (simp add: detectScale_def mentions_def)

lemma detectInstruments_none:
  "\<not> mentions d instrument_keywords \<Longrightarrow>
   detectInstruments d p = (if instruments p = [] then p\<lparr>instruments := [''piano'', ''bass'']\<rparr> else p)"
  by (simp add: detectInstruments_def mentions_def instrument_keywords_def pushIf_def)

lemma detectMood_none: "\<not> mentions d mood_keywords \<Longrightarrow> detectMood d p = p"
  by (simp add: detectMood_def mentions_def mood_keywords_def happy_keywords_def
      sad_keywords_def energetic_keywords_def calm_keywords_def)

lemma detectDuration_none: "\<not> mentions d [''short'', ''long''] \<Longrightarrow> detectDuration d p = p"
  by (simp add: detectDuration_def mentions_def)

lemma detectComplexity_none:
  "\<not> mentions d [''simple'', ''minimal'', ''complex'', ''intricate''] \<Longrightarrow>
   detectComplexity d p = p"
  by (simp add: detectComplexity_def mentions_def)

lemma mentions_Cons: "mentions d (k # ks) = (includes_str d k \<or> mentions d ks)"
  by (simp add: mentions_def)


lemma parse_scale:
  "scale (parseDescription d) =
     scale (detectMood (toLowerCase d) (detectInstruments (toLowerCase d)
       (detectScale (toLowerCase d) (detectKey (toLowerCase d)
          (detectTempo (toLowerCase d) initial_params)))))"
  by (simp add: parseDescription_def Let_def frame)

lemma parse_instruments:
  "instruments (parseDescription d) =
     instruments (detectInstruments (toLowerCase d)
       (detectScale (toLowerCase d) (detectKey (toLowerCase d)
          (detectTempo (toLowerCase d) initial_params))))"
  by (simp add: parseDescription_def Let_def frame)

lemma instruments_before:
  "instruments (detectScale desc (detectKey desc (detectTempo desc initial_params))) = []"
  by (simp add: frame detectKey_def initial_params_def)

lemma instruments_pushIf: "instruments p \<noteq> [] \<Longrightarrow> instruments (pushIf c n p) \<noteq> []"
  by (simp add: pushIf_def)

lemma detectInstruments_nonempty: "instruments (detectInstruments desc p) \<noteq> []"
  by (simp add: detectInstruments_def Let_def)


subsection \<open>Defaults\<close>

text \<open>
  Claim C6. For every description whose lower-cased text contains no keyword of any
  keyword table, the extracted parameters are exactly the defaults: tempo 120, key C,
  scale major, instruments piano and bass, mood neutral, duration 5 seconds, complexity
  medium.
\<close>

theorem parseDescription_defaults:
  assumes "\<not> mentions (toLowerCase d) recognized_keywords"
  shows "parseDescription d =
     \<lparr> tempo = 120, key = ''C'', scale = ''major'', instruments = [''piano'', ''bass''],
       mood = ''neutral'', duration = 5, complexity = ''medium'' \<rparr>"
proof -
  let ?desc = "toLowerCase d"
  from assms have none:
    "\<not> mentions ?desc slow_keywords" "\<not> mentions ?desc fast_keywords"
    "\<not> mentions ?desc moderate_keywords" "\<not> mentions ?desc upbeat_keywords"
    "\<not> mentions ?desc key_phrases" "\<not> mentions ?desc [''minor'', ''major'']"
    "\<not> mentions ?desc instrument_keywords" "\<not> mentions ?desc mood_keywords"
    "\<not> mentions ?desc [''short'', ''long'']"
    "\<not> mentions ?desc [''simple'', ''minimal'', ''complex'', ''intricate'']"
    by (simp_all add: recognized_keywords_def mentions_append mentions_Cons)
  have "parseDescription d = detectInstruments ?desc initial_params"
    unfolding parseDescription_def Let_def
    by (simp only: detectTempo_none detectKey_none detectScale_none detectMood_none
        detectDuration_none detectComplexity_none none not_False_eq_True)
  also have "\<dots> = initial_params\<lparr>instruments := [''piano'', ''bass'']\<rparr>"
    using none(7) by (simp add: detectInstruments_none initial_params_def)
  finally show ?thesis by (simp add: initial_params_def)
qed

text \<open>The theorem at \<open>Hello World\<close>.\<close>

theorem parseDescription_defaults_witness:
  "\<not> mentions (toLowerCase ''Hello World'') recognized_keywords
   \<and> parseDescription ''Hello World'' =
     \<lparr> tempo = 120, key = ''C'', scale = ''major'', instruments = [''piano'', ''bass''],
       mood = ''neutral'', duration = 5, complexity = ''medium'' \<rparr>"
proof -
  have h: "\<not> mentions (toLowerCase ''Hello World'') recognized_keywords"
    by code_simp
  from parseDescription_defaults [OF h] h show ?thesis by simp
qed

subsection \<open>Scale: \<open>minor\<close> against \<open>major\<close>\<close>

text \<open>
  Claim C2, as amended. For every description whose lower-cased text contains both
  \<open>minor\<close> and \<open>major\<close> and no mood keyword, the extracted scale is \<open>minor\<close>: the test for
  \<open>major\<close> is the \<open>else\<close> branch of the test for \<open>minor\<close>, so it is not reached.
\<close>

theorem scale_minor_checked_first:
  assumes "includes_str (toLowerCase d) ''minor''"
      and "includes_str (toLowerCase d) ''major''"
      and "\<not> mentions (toLowerCase d) mood_keywords"
  shows "scale (parseDescription d) = ''minor''"
proof -
  from assms(3) have "\<not> mentions (toLowerCase d) happy_keywords"
    and "\<not> mentions (toLowerCase d) sad_keywords"
    by (simp_all add: mood_keywords_def mentions_append)
  then show ?thesis
    using assms(1) by (simp add: parse_scale scale_detectMood frame detectScale_def)
qed

text \<open>The theorem at \<open>Minor then Major\<close>.\<close>

theorem scale_minor_checked_first_witness:
  "includes_str (toLowerCase ''Minor then Major'') ''minor''
   \<and> includes_str (toLowerCase ''Minor then Major'') ''major''
   \<and> \<not> mentions (toLowerCase ''Minor then Major'') mood_keywords
   \<and> scale (parseDescription ''Minor then Major'') = ''minor''"
proof -
  have h: "includes_str (toLowerCase ''Minor then Major'') ''minor''"
    "includes_str (toLowerCase ''Minor then Major'') ''major''"
    "\<not> mentions (toLowerCase ''Minor then Major'') mood_keywords"
    by code_simp+
  from scale_minor_checked_first [OF h] h show ?thesis by simp
qed

text \<open>
  Claim C2 as stated, that such a text gives the scale \<open>major\<close>, fails at
  \<open>minor then major\<close>.
\<close>

theorem scale_major_wins_counterexample:
  "includes_str (toLowerCase ''minor then major'') ''minor''
   \<and> includes_str (toLowerCase ''minor then major'') ''major''
   \<and> \<not> mentions (toLowerCase ''minor then major'') mood_keywords
   \<and> scale (parseDescription ''minor then major'') \<noteq> ''major''"
  by code_simp

subsection \<open>Tempo: the first matching class decides\<close>

text \<open>
  Claim C3, as amended. For every description without a keyword of the two moods that
  clamp the tempo (energetic, calm), the extracted tempo is that of the first tempo class,
  in the order slow, fast, moderate, upbeat, of which the text contains a keyword (120 if
  there is none), because the tests form one \<open>if / else if\<close> chain; in particular a text
  with a slow-class keyword has tempo 60, whatever other tempo keywords it contains.
\<close>

theorem tempo_first_matching_class:
  assumes "\<not> mentions (toLowerCase d) energetic_keywords"
      and "\<not> mentions (toLowerCase d) calm_keywords"
  shows "tempo (parseDescription d) = first_matching_tempo (toLowerCase d)
         \<and> (mentions (toLowerCase d) slow_keywords \<longrightarrow> tempo (parseDescription d) = 60)"
proof -
  have t: "tempo (parseDescription d) = first_matching_tempo (toLowerCase d)"
    using assms
    by (simp add: parse_tempo tempo_detectMood frame detectKey_def tempo_detectTempo)
  have "mentions desc slow_keywords \<Longrightarrow> first_matching_tempo desc = 60" for desc
    by (simp add: first_matching_tempo_def matching_tempos_def tempo_classes_def)
  with t show ?thesis by simp
qed

text \<open>The theorem at \<open>Slow but upbeat\<close>.\<close>

theorem tempo_first_matching_class_witness:
  "\<not> mentions (toLowerCase ''Slow but upbeat'') energetic_keywords
   \<and> \<not> mentions (toLowerCase ''Slow but upbeat'') calm_keywords
   \<and> mentions (toLowerCase ''Slow but upbeat'') slow_keywords
   \<and> first_matching_tempo (toLowerCase ''Slow but upbeat'') = 60
   \<and> tempo (parseDescription ''Slow but upbeat'') = 60"
proof -
  have h: "\<not> mentions (toLowerCase ''Slow but upbeat'') energetic_keywords"
    "\<not> mentions (toLowerCase ''Slow but upbeat'') calm_keywords"
    by code_simp+
  have s: "mentions (toLowerCase ''Slow but upbeat'') slow_keywords"
    by code_simp
  from tempo_first_matching_class [OF h] h s show ?thesis by simp
qed

text \<open>
  Claim C3 as stated, that the last matching class decides and that \<open>slow\<close> with \<open>upbeat\<close>
  gives 140, fails at \<open>slow upbeat\<close>: the tempo is 60.
\<close>

theorem tempo_last_class_counterexample:
  "mentions (toLowerCase ''slow upbeat'') slow_keywords
   \<and> mentions (toLowerCase ''slow upbeat'') upbeat_keywords
   \<and> \<not> mentions (toLowerCase ''slow upbeat'') energetic_keywords
   \<and> \<not> mentions (toLowerCase ''slow upbeat'') calm_keywords
   \<and> spec_last_matching_tempo (toLowerCase ''slow upbeat'') = 140
   \<and> tempo (parseDescription ''slow upbeat'') = 60"
  by code_simp

subsection \<open>\<open>sad\<close> with \<open>fast\<close>\<close>

text \<open>
  Claim C8, as amended. For every description whose lower-cased text contains \<open>sad\<close> and
  \<open>fast\<close>, no slow-class tempo keyword and no keyword of the happy mood (which is tested
  before the sad mood), the tempo is 160 and the scale is \<open>minor\<close>.
\<close>

theorem sad_fast_tempo_and_scale:
  assumes "includes_str (toLowerCase d) ''sad''"
      and "includes_str (toLowerCase d) ''fast''"
      and "\<not> mentions (toLowerCase d) slow_keywords"
      and "\<not> mentions (toLowerCase d) happy_keywords"
  shows "tempo (parseDescription d) = 160 \<and> scale (parseDescription d) = ''minor''"
proof -
  have sad: "mentions (toLowerCase d) sad_keywords"
    using assms(1) by (simp add: sad_keywords_def mentions_Cons)
  have fast: "mentions (toLowerCase d) fast_keywords"
    using assms(2) by (simp add: fast_keywords_def mentions_Cons)
  have "first_matching_tempo (toLowerCase d) = 160"
    using assms(3) fast
    by (simp add: first_matching_tempo_def matching_tempos_def tempo_classes_def)
  then have "tempo (parseDescription d) = 160"
    using sad
    by (simp add: parse_tempo tempo_detectMood frame detectKey_def tempo_detectTempo)
  moreover have "scale (parseDescription d) = ''minor''"
    using sad assms(4) by (simp add: parse_scale scale_detectMood)
  ultimately show ?thesis by simp
qed

text \<open>The theorem at \<open>A sad but fast tune\<close>.\<close>

theorem sad_fast_tempo_and_scale_witness:
  "includes_str (toLowerCase ''A sad but fast tune'') ''sad''
   \<and> includes_str (toLowerCase ''A sad but fast tune'') ''fast''
   \<and> \<not> mentions (toLowerCase ''A sad but fast tune'') slow_keywords
   \<and> \<not> mentions (toLowerCase ''A sad but fast tune'') happy_keywords
   \<and> tempo (parseDescription ''A sad but fast tune'') = 160
   \<and> scale (parseDescription ''A sad but fast tune'') = ''minor''"
proof -
  have h: "includes_str (toLowerCase ''A sad but fast tune'') ''sad''"
    "includes_str (toLowerCase ''A sad but fast tune'') ''fast''"
    "\<not> mentions (toLowerCase ''A sad but fast tune'') slow_keywords"
    "\<not> mentions (toLowerCase ''A sad but fast tune'') happy_keywords"
    by code_simp+
  from sad_fast_tempo_and_scale [OF h] h show ?thesis by simp
qed

text \<open>
  Claim C8 as stated fails at \<open>happy sad fast\<close>: the happy mood is found first, the sad
  branch is skipped, and the scale stays \<open>major\<close>.
\<close>

theorem sad_fast_scale_counterexample:
  "includes_str (toLowerCase ''happy sad fast'') ''sad''
   \<and> includes_str (toLowerCase ''happy sad fast'') ''fast''
   \<and> \<not> mentions (toLowerCase ''happy sad fast'') slow_keywords
   \<and> scale (parseDescription ''happy sad fast'') \<noteq> ''minor''"
  by code_simp

subsection \<open>Instruments\<close>

text \<open>
  Claim C9. For every description, the instrument list of the extracted parameters is not
  empty; if the lower-cased text contains no instrument keyword, it is the default pair
  \<open>piano\<close>, \<open>bass\<close>.
\<close>

theorem instruments_never_empty:
  "instruments (parseDescription d) \<noteq> []
   \<and> (\<not> mentions (toLowerCase d) instrument_keywords \<longrightarrow>
        instruments (parseDescription d) = [''piano'', ''bass''])"
  by (simp add: parse_instruments detectInstruments_nonempty detectInstruments_none
      instruments_before)

text \<open>The theorem at \<open>Something gentle\<close>.\<close>

theorem instruments_never_empty_witness:
  "\<not> mentions (toLowerCase ''Something gentle'') instrument_keywords
   \<and> instruments (parseDescription ''Something gentle'') = [''piano'', ''bass'']"
proof -
  have h: "\<not> mentions (toLowerCase ''Something gentle'') instrument_keywords"
    by code_simp
  with instruments_never_empty [of "''Something gentle''"] show ?thesis by simp
qed

section \<open>Properties of the fallback manager\<close>

lemma filter_non_null_map_Some: "filter_non_null (map Some xs) = xs"
  by (induction xs) simp_all

lemma generatorsToTry_eq:
  "generatorsToTry m =
     (case currentGenerator m of
        None \<Rightarrow> generators m
      | Some c \<Rightarrow> c # filter (\<lambda>g. oid g \<noteq> oid c) (generators m))"
  by (simp add: generatorsToTry_def filter_non_null_map_Some split: option.split)

lemmas stub_defs = stub_generator_def gen_unavailable_def gen_failing_def gen_working_def
  gen_offline_def

lemma manager_abc_eq:
  "manager_abc =
     \<lparr> generators = [gen_unavailable, gen_failing, gen_working],
       currentGenerator = Some gen_unavailable, fallbackGenerator = Some gen_unavailable \<rparr>"
  by (simp add: manager_abc_def registerGenerator_def new_manager_def Let_def)

lemma manager_twice_eq:
  "manager_twice =
     \<lparr> generators = [gen_unavailable, gen_working, gen_working],
       currentGenerator = Some gen_unavailable, fallbackGenerator = Some gen_unavailable \<rparr>"
  by (simp add: manager_twice_def registerGenerator_def new_manager_def Let_def)



subsection \<open>The trial list\<close>

text \<open>
  Claim C7, as amended. For every manager state, the trial list of \<open>generate\<close> is the
  selected generator (left out when it is \<open>null\<close>) followed by the registered generators
  in registration order without every occurrence of the selected one. Nothing else removes
  duplicates: the list is free of duplicates when every generator is registered once.
\<close>

theorem generatorsToTry_order:
  "generatorsToTry m =
     (case currentGenerator m of
        None \<Rightarrow> generators m
      | Some c \<Rightarrow> c # filter (\<lambda>g. oid g \<noteq> oid c) (generators m))
   \<and> (distinct (map oid (generators m)) \<longrightarrow> distinct (map oid (generatorsToTry m)))"
proof -
  have "distinct (map oid (c # filter (\<lambda>g. oid g \<noteq> oid c) gs))"
    if "distinct (map oid gs)" for c :: "('a, 'b, 'c) generator" and gs
    using that by (auto simp: distinct_map_filter)
  then show ?thesis
    by (simp add: generatorsToTry_eq split: option.split)
qed

text \<open>The theorem at the manager with A, B and C registered once each.\<close>

theorem generatorsToTry_order_witness:
  "distinct (map oid (generators manager_abc))
   \<and> map oid (generatorsToTry manager_abc) = [1, 2, 3]
   \<and> distinct (map oid (generatorsToTry manager_abc))"
proof -
  have d: "distinct (map oid (generators manager_abc))"
    by (simp add: manager_abc_eq stub_defs)
  have "currentGenerator manager_abc = Some gen_unavailable"
    by (simp add: manager_abc_eq)
  with generatorsToTry_order [of manager_abc] d show ?thesis
    by (simp add: manager_abc_eq stub_defs)
qed

text \<open>
  Claim C7 as stated, with duplicates removed, fails for a manager in which a generator
  other than the selected one was registered twice: it is tried twice.
\<close>

theorem generatorsToTry_duplicates_counterexample:
  "map oid (generatorsToTry manager_twice) = [1, 3, 3]
   \<and> map oid (spec_trial_list manager_twice) = [1, 3]"
  by (simp add: manager_twice_eq generatorsToTry_def spec_trial_list_def stub_defs)

subsection \<open>Fallback\<close>

text \<open>
  Claim C4. Let A, B, C be registered in that order, A selected. If A's availability check
  returns false, B is available and its \<open>generate\<close> throws \<open>e\<close>, and C is available and its
  \<open>generate\<close> returns \<open>r\<close>, then \<open>generate\<close> of the manager returns \<open>r\<close> and throws nothing.
  The calls happen in the order A, B, C (each acts on the world the previous one left),
  and the only warning is the one for B with \<open>e\<close>.
\<close>

theorem fallback_skips_and_catches:
  assumes "generators m = [A, B, C]" and "currentGenerator m = Some A"
      and "oid B \<noteq> oid A" and "oid C \<noteq> oid A"
      and "isAvailable A w = (Inr False, w1)"
      and "isAvailable B w1 = (Inr True, w2)" and "generate B d cb w2 = (Inl e, w3)"
      and "isAvailable C w3 = (Inr True, w4)" and "generate C d cb w4 = (Inr r, w5)"
  shows "manager_generate m d cb w = (Inr r, w5, [(getName B, e)])"
proof -
  have "generatorsToTry m = [A, B, C]"
    using assms(1-4) by (simp add: generatorsToTry_eq)
  then show ?thesis
    using assms(5-9) by (simp add: manager_generate_def)
qed

text \<open>
  The theorem at the three concrete generators; the world lists the calls: A's check, B's
  check and \<open>generate\<close>, C's check and \<open>generate\<close>.
\<close>

theorem fallback_skips_and_catches_witness:
  "manager_generate manager_abc ''calm piano'' () [] =
     (Inr ''c.wav'', [1, 2, 2, 3, 3], [(''B'', ErrorObj ''synthesis failed'')])"
proof -
  have "manager_generate manager_abc ''calm piano'' () [] =
          (Inr ''c.wav'', [1, 2, 2, 3, 3], [(getName gen_failing, ErrorObj ''synthesis failed'')])"
    by (rule fallback_skips_and_catches
          [where A = gen_unavailable and B = gen_failing and C = gen_working
             and ?w1.0 = "[1]" and ?w2.0 = "[1, 2]" and ?w3.0 = "[1, 2, 2]"
             and ?w4.0 = "[1, 2, 2, 3]"])
       (simp_all add: manager_abc_eq stub_defs)
  then show ?thesis by (simp add: stub_defs)
qed

subsection \<open>Exhausted fallback\<close>





subsection \<open>Selecting a generator by name\<close>

text \<open>
  Claim C10. For every manager state and every name: if some registered generator has
  exactly that name, \<open>setGenerator\<close> returns true and makes the first such generator the
  current one, changing nothing else; otherwise it returns false and leaves the manager
  (current generator, registered list, fallback generator) as it was.
\<close>

theorem setGenerator_effect:
  "(\<forall>i < length (generators m).
       getName (generators m ! i) = name \<and> (\<forall>j < i. getName (generators m ! j) \<noteq> name)
       \<longrightarrow> setGenerator m name = (True, m\<lparr>currentGenerator := Some (generators m ! i)\<rparr>))
   \<and> ((\<forall>g \<in> set (generators m). getName g \<noteq> name) \<longrightarrow> setGenerator m name = (False, m))"
proof -
  have found: "find P xs = Some (xs ! i)" if "i < length xs" "P (xs ! i)" "\<forall>j < i. \<not> P (xs ! j)"
    for P :: "('a, 'b, 'c) generator \<Rightarrow> bool" and xs i
    using that by (auto simp: find_Some_iff)
  have missing: "find P xs = None" if "\<forall>x \<in> set xs. \<not> P x"
    for P :: "('a, 'b, 'c) generator \<Rightarrow> bool" and xs
    using that by (simp add: find_None_iff)
  show ?thesis
    by (auto simp: setGenerator_def found missing)
qed

text \<open>The theorem at the manager with A, B, C, for the name of B and for an unknown name.\<close>

theorem setGenerator_effect_witness:
  "setGenerator manager_abc ''B'' = (True, manager_abc\<lparr>currentGenerator := Some gen_failing\<rparr>)
   \<and> setGenerator manager_abc ''Z'' = (False, manager_abc)"
proof -
  have gs: "generators manager_abc = [gen_unavailable, gen_failing, gen_working]"
    by (simp add: manager_abc_eq)
  have n: "getName gen_unavailable = ''A''" "getName gen_failing = ''B''"
    "getName gen_working = ''C''"
    by (simp_all add: stub_defs)
  have "1 < length (generators manager_abc)
        \<and> getName (generators manager_abc ! 1) = ''B''
        \<and> (\<forall>j < 1. getName (generators manager_abc ! j) \<noteq> ''B'')"
    by (simp add: gs n)
  with setGenerator_effect [of manager_abc "''B''"]
  have "setGenerator manager_abc ''B'' =
          (True, manager_abc\<lparr>currentGenerator := Some (generators manager_abc ! 1)\<rparr>)"
    by blast
  moreover have "\<forall>g \<in> set (generators manager_abc). getName g \<noteq> ''Z''"
    by (simp add: gs n)
  with setGenerator_effect [of manager_abc "''Z''"]
  have "setGenerator manager_abc ''Z'' = (False, manager_abc)"
    by blast
  ultimately show ?thesis by (simp add: gs)
qed

section \<open>Properties of the WAV encoder\<close>

subsection \<open>Every write appends to what is written\<close>

lemma bindE_Inr [simp]: "bindE (Inr x) f = f x"
  by (simp add: bindE_def)

lemma bindE_Inl [simp]: "bindE (Inl e) f = Inl e"
  by (simp add: bindE_def)

lemma bindE_assoc: "bindE (bindE m f) g = bindE m (\<lambda>x. bindE (f x) g)"
  by (simp add: bindE_def split: sum.split)

lemma emit_Nil: "emit [] st = (if snd st \<le> length (fst st) then Inr st else Inl RangeError)"
  by (cases st) (simp add: emit_def setBytes_def)

lemma emit_length:
  "emit bs (view, pos) = Inr (view', pos') \<Longrightarrow> length view' = length view \<and> pos' = pos + length bs"
  by (auto simp: emit_def setBytes_def split: if_splits)

lemma emit_append: "bindE (emit as st) (emit bs) = emit (as @ bs) st"
proof (cases st)
  case (Pair view pos)
  show ?thesis
  proof (cases "pos + length as + length bs \<le> length view")
    case True
    then show ?thesis
      by (cases as) (auto simp: Pair emit_def setBytes_def min_def ac_simps)
  next
    case False
    then show ?thesis
      by (simp add: Pair emit_def setBytes_def)
  qed
qed


lemma foldE_append: "foldE f (xs @ ys) s = bindE (foldE f xs s) (foldE f ys)"
  by (induction xs arbitrary: s) (simp_all add: bindE_def split: sum.split)

lemma foldE_emit:
  assumes "\<And>x st. snd st \<le> length (fst st) \<Longrightarrow> g x st = emit (f x) st"
      and "snd st \<le> length (fst st)"
  shows "foldE g xs st = emit (concat (map f xs)) st"
  using assms(2)
proof (induction xs arbitrary: st)
  case Nil
  then show ?case by (simp add: emit_Nil)
next
  case (Cons x xs)
  obtain view pos where st: "st = (view, pos)" by (cases st)
  have g: "g x st = emit (f x) st" using Cons.prems by (rule assms(1))
  show ?case
  proof (cases "emit (f x) st")
    case (Inl e)
    then have "pos + length (f x) > length view"
      by (auto simp: st emit_def setBytes_def split: if_splits)
    then have "emit (f x @ concat (map f xs)) st = Inl RangeError"
      by (simp add: st emit_def setBytes_def)
    moreover from Inl have "e = RangeError"
      by (auto simp: st emit_def setBytes_def split: if_splits)
    ultimately show ?thesis using Inl g by simp
  next
    case (Inr st')
    obtain view' pos' where st': "st' = (view', pos')" by (cases st')
    from Inr have "pos + length (f x) \<le> length view"
      by (auto simp: st emit_def setBytes_def split: if_splits)
    with Inr emit_length [of "f x" view pos view' pos'] have "snd st' \<le> length (fst st')"
      by (simp add: st st')
    from Cons.IH [OF this]
    have "foldE g (x # xs) st = bindE (emit (f x) st) (emit (concat (map f xs)))"
      using Inr g by simp
    then show ?thesis by (simp add: emit_append)
  qed
qed

lemma writeString_emit:
  "pos \<le> length view \<Longrightarrow> writeString s (view, pos) = emit (ascii s) (view, pos)"
proof (induction s arbitrary: view pos)
  case Nil
  then show ?case by (simp add: emit_Nil ascii_def)
next
  case (Cons c cs)
  have step: "setUint8 view pos (of_char c) = setBytes view pos [of_char c]"
    by (simp add: setUint8_def of_nat_of_char)
  show ?case
  proof (cases "pos + 1 \<le> length view")
    case True
    then have "writeString (c # cs) (view, pos) =
        bindE (emit [of_char c] (view, pos)) (emit (ascii cs))"
      using Cons.IH [of "Suc pos" "take pos view @ [of_char c] @ drop (pos + 1) view"]
      by (simp add: step setBytes_def emit_def min_def)
    then show ?thesis by (simp add: emit_append ascii_def)
  next
    case False
    then show ?thesis
      by (simp add: step setBytes_def emit_def ascii_def)
  qed
qed

lemma length_le_bytes [simp]: "length (le_bytes16 v) = 2" "length (le_bytes32 v) = 4"
  by (simp_all add: le_bytes16_def le_bytes32_def Let_def)

lemma putUint32_emit: "putUint32 v st = emit (le_bytes32 (ToUint32 v)) st"
  by (cases st) (simp add: putUint32_def emit_def setUint32_def ordered_def)

lemma putUint16_emit: "putUint16 v st = emit (le_bytes16 (ToUint16 v)) st"
  by (cases st) (simp add: putUint16_def emit_def setUint16_def ordered_def)

lemma writeSample_emit:
  "writeSample channels i channel st = emit (sample_bytes (sample_at (channels ! channel) i)) st"
  by (cases st)
     (simp add: writeSample_def emit_def setInt16_def ordered_def sample_bytes_def
        scaled_sample_def Let_def)


lemma writeString_emit_nonempty: "s \<noteq> [] \<Longrightarrow> writeString s st = emit (ascii s) st"
proof (cases st)
  case (Pair view pos)
  assume "s \<noteq> []"
  then obtain c cs where s: "s = c # cs" by (cases s) auto
  show ?thesis
  proof (cases "pos \<le> length view")
    case True
    then show ?thesis by (simp add: Pair writeString_emit)
  next
    case False
    then show ?thesis
      by (simp add: Pair s setUint8_def setBytes_def emit_def ascii_def)
  qed
qed

lemma emit_chain:
  "bindE (emit as st) (\<lambda>st'. bindE (emit bs st') k) = bindE (emit (as @ bs) st) k"
  by (simp add: emit_append [symmetric] bindE_assoc)

lemma emit_prefix:
  "length bs \<le> length rest \<Longrightarrow>
   emit bs (p @ rest, length p) = Inr (p @ bs @ drop (length bs) rest, length p + length bs)"
  by (simp add: emit_def setBytes_def)

lemma length_concat_uniform:
  "(\<And>x. x \<in> set xs \<Longrightarrow> length (f x) = k) \<Longrightarrow> length (concat (map f xs)) = length xs * k"
  by (induction xs) simp_all

lemma length_sample_bytes [simp]: "length (sample_bytes x) = 2"
  by (simp add: sample_bytes_def)

lemma length_frame_bytes [simp]: "length (frame_bytes channels n i) = n * 2"
  by (simp add: frame_bytes_def length_concat_uniform)

lemma length_data_bytes [simp]: "length (data_bytes buffer) = dataBytes buffer"
  by (simp add: data_bytes_def dataBytes_def length_concat_uniform)

lemma length_header_bytes [simp]: "length (header_bytes buffer) = 44"
  by (simp add: header_bytes_def ascii_def)

lemma writeFrame_emit:
  "snd st \<le> length (fst st) \<Longrightarrow>
   writeFrame channels n i st = emit (frame_bytes channels n i) st"
  unfolding writeFrame_def frame_bytes_def
  by (rule foldE_emit) (simp_all add: writeSample_emit)

lemma writeFrames_emit:
  "snd st \<le> length (fst st) \<Longrightarrow>
   foldE (writeFrame channels n) frames st
     = emit (concat (map (frame_bytes channels n) frames)) st"
  by (rule foldE_emit) (simp_all add: writeFrame_emit)

lemma pushChannels:
  "n \<le> length (channelData buffer) \<Longrightarrow>
   foldE (pushChannel buffer) [0..<n] [] = Inr (take n (channelData buffer))"
proof (induction n)
  case 0
  then show ?case by simp
next
  case (Suc n)
  then have IH: "foldE (pushChannel buffer) [0..<n] [] = Inr (take n (channelData buffer))"
    by simp
  have "foldE (pushChannel buffer) [0..<Suc n] []
        = bindE (foldE (pushChannel buffer) [0..<n] []) (foldE (pushChannel buffer) [n])"
    by (simp add: foldE_append)
  also have "\<dots> = pushChannel buffer n (take n (channelData buffer))"
    by (simp add: IH bindE_def split: sum.split)
  also have "\<dots> = Inr (take (Suc n) (channelData buffer))"
    using Suc.prems
    by (simp add: pushChannel_def getChannelData_def take_Suc_conv_app_nth)
  finally show ?case .
qed

subsection \<open>The bytes produced\<close>

lemma header_emit:
  "audioBufferToWav buffer =
     bindE (newArrayBuffer (44 + dataBytes buffer)) (\<lambda>arrayBuffer.
     bindE (emit (header_bytes buffer) (arrayBuffer, 0)) (\<lambda>st.
     bindE (foldE (pushChannel buffer) [0..<numberOfChannels buffer] []) (\<lambda>channels.
     bindE (foldE (writeFrame channels (numberOfChannels buffer)) [0..<length_buf buffer] st)
       (\<lambda>st. Inr (fst st)))))"
  by (simp add: audioBufferToWav_def Let_def writeString_emit_nonempty putUint32_emit
      putUint16_emit emit_chain header_bytes_def dataBytes_def byteRate_def
      del: writeString.simps)

lemma audioBufferToWav_bytes:
  assumes "consistent buffer" and "44 + dataBytes buffer \<le> 2 ^ 53 - 1"
  shows "audioBufferToWav buffer = Inr (header_bytes buffer @ data_bytes buffer)"
proof -
  let ?n = "dataBytes buffer"
  have alloc: "newArrayBuffer (44 + ?n) = Inr (replicate (44 + ?n) 0)"
    using assms(2) by (simp add: newArrayBuffer_def)
  have hdr: "emit (header_bytes buffer) (replicate (44 + ?n) 0, 0)
             = Inr (header_bytes buffer @ replicate ?n 0, 44)"
    using emit_prefix [of "header_bytes buffer" "replicate (44 + ?n) 0" "[]"] by simp
  have chans: "foldE (pushChannel buffer) [0..<numberOfChannels buffer] []
               = Inr (channelData buffer)"
    using assms(1) pushChannels [of "numberOfChannels buffer" buffer]
    by (simp add: consistent_def)
  have frames: "foldE (writeFrame (channelData buffer) (numberOfChannels buffer))
                  [0..<length_buf buffer] (header_bytes buffer @ replicate ?n 0, 44)
                = Inr (header_bytes buffer @ data_bytes buffer, 44 + ?n)"
  proof -
    have "foldE (writeFrame (channelData buffer) (numberOfChannels buffer))
                  [0..<length_buf buffer] (header_bytes buffer @ replicate ?n 0, 44)
          = emit (data_bytes buffer) (header_bytes buffer @ replicate ?n 0, 44)"
      unfolding data_bytes_def by (rule writeFrames_emit) simp
    also have "\<dots> = Inr (header_bytes buffer @ data_bytes buffer, 44 + ?n)"
      using emit_prefix [of "data_bytes buffer" "replicate ?n 0" "header_bytes buffer"]
      by simp
    finally show ?thesis .
  qed
  show ?thesis
    by (simp add: header_emit alloc hdr chans frames)
qed


subsection \<open>Reading the fields back\<close>

lemma unat_byte: "n < 256 \<Longrightarrow> unat (of_nat n :: byte) = n"
  by (simp add: unat_of_nat)

lemma decode16: "u16_at (le_bytes16 v) 0 = v mod 65536"
proof -
  have "v mod 65536 div 256 < 256" by (simp add: less_mult_imp_div_less)
  then show ?thesis
    by (simp add: u16_at_def le_bytes16_def Let_def unat_byte)
qed

lemma base256_digits:
  fixes v :: nat
  assumes "v = m0 + 256 * a" and "a = m1 + 256 * b" and "b = m2 + 256 * c"
  shows "m0 + 256 * m1 + 65536 * m2 + 16777216 * c = v"
  using assms by simp

lemma decode32: "u32_at (le_bytes32 v) 0 = v mod 4294967296"
proof -
  define u where "u = v mod 4294967296"
  have u: "u < 4294967296" by (simp add: u_def)
  have d1: "u div 65536 = u div 256 div 256" and d2: "u div 16777216 = u div 256 div 256 div 256"
    by (simp_all add: div_mult2_eq [symmetric])
  have "u mod 256 + 256 * (u div 256 mod 256) + 65536 * (u div 256 div 256 mod 256)
          + 16777216 * (u div 256 div 256 div 256) = u"
    by (rule base256_digits) (simp_all add: mult.commute [of 256])
  moreover have "u div 16777216 < 256" using u by (simp add: less_mult_imp_div_less)
  ultimately have "unat (of_nat (u mod 256) :: byte) + 256 * unat (of_nat (u div 256 mod 256) :: byte)
      + 65536 * unat (of_nat (u div 65536 mod 256) :: byte)
      + 16777216 * unat (of_nat (u div 16777216) :: byte) = u"
    by (simp add: unat_byte d1 d2)
  then show ?thesis
    by (simp add: u32_at_def le_bytes32_def Let_def u_def [symmetric])
qed

lemma u16_at_append_left: "k + 2 \<le> length xs \<Longrightarrow> u16_at (xs @ ys) k = u16_at xs k"
  by (simp add: u16_at_def nth_append)

lemma u16_at_append_right:
  "length xs \<le> k \<Longrightarrow> u16_at (xs @ ys) k = u16_at ys (k - length xs)"
  by (simp add: u16_at_def nth_append Suc_diff_le)

lemma u32_at_append_left: "k + 4 \<le> length xs \<Longrightarrow> u32_at (xs @ ys) k = u32_at xs k"
  by (simp add: u32_at_def nth_append)

lemma u32_at_append_right:
  "length xs \<le> k \<Longrightarrow> u32_at (xs @ ys) k = u32_at ys (k - length xs)"
  by (simp add: u32_at_def nth_append Suc_diff_le)

lemma slice_append_left: "length xs = n \<Longrightarrow> slice (xs @ ys) 0 n = xs"
  by (simp add: slice_def)

lemma slice_append_right:
  "length xs \<le> k \<Longrightarrow> slice (xs @ ys) k n = slice ys (k - length xs) n"
  by (simp add: slice_def)

lemmas read_append = u16_at_append_left u16_at_append_right u32_at_append_left
  u32_at_append_right slice_append_left slice_append_right

lemma ToUint16_less: "ToUint16 v < 65536"
  by (simp add: ToUint16_def nat_less_iff)

lemma ToUint32_less: "ToUint32 v < 4294967296"
  by (simp add: ToUint32_def nat_less_iff)

lemma decode16_ToUint16: "u16_at (le_bytes16 (ToUint16 v)) 0 = ToUint16 v"
  by (simp add: decode16 ToUint16_less)

lemma decode32_ToUint32: "u32_at (le_bytes32 (ToUint32 v)) 0 = ToUint32 v"
  by (simp add: decode32 ToUint32_less)

lemma trunc_of_nat: "trunc (of_nat n) = int n"
  by (simp add: trunc_def)

lemma ToUint16_of_nat: "n < 65536 \<Longrightarrow> ToUint16 (of_nat n) = n"
  by (simp only: ToUint16_def trunc_of_nat) simp

lemma ToUint32_of_nat: "n < 4294967296 \<Longrightarrow> ToUint32 (of_nat n) = n"
  by (simp only: ToUint32_def trunc_of_nat) simp

lemma ToUint32_floor: "0 \<le> r \<Longrightarrow> r < 4294967296 \<Longrightarrow> ToUint32 r = nat \<lfloor>r\<rfloor>"
proof -
  assume r: "0 \<le> r" "r < 4294967296"
  then have "0 \<le> \<lfloor>r\<rfloor>" and "\<lfloor>r\<rfloor> < 4294967296"
    by (simp_all add: floor_less_iff)
  then have "\<lfloor>r\<rfloor> mod 4294967296 = \<lfloor>r\<rfloor>" by simp
  with r show ?thesis by (simp add: ToUint32_def trunc_def)
qed

lemma ToUint_constants: "ToUint32 16 = 16" "ToUint16 1 = 1" "ToUint16 16 = 16"
  by (simp_all add: ToUint32_def ToUint16_def trunc_def)

lemma length_ascii [simp]: "length (ascii s) = length s"
  by (simp add: ascii_def)

lemma nth_concat_uniform:
  "(\<And>x. x \<in> set xs \<Longrightarrow> length (f x) = k) \<Longrightarrow> i < length xs \<Longrightarrow> j < k \<Longrightarrow>
   concat (map f xs) ! (i * k + j) = f (xs ! i) ! j"
proof (induction xs arbitrary: i)
  case Nil
  then show ?case by simp
next
  case (Cons x xs)
  show ?case
  proof (cases i)
    case 0
    with Cons.prems show ?thesis by (simp add: nth_append)
  next
    case (Suc i')
    with Cons.prems have "concat (map f xs) ! (i' * k + j) = f (xs ! i') ! j"
      by (intro Cons.IH) simp_all
    with Suc Cons.prems(1) [of x] show ?thesis
      by (simp add: nth_append)
  qed
qed

subsection \<open>The sample conversion\<close>

lemma trunc_bounds:
  assumes "- 1 \<le> c" and "c \<le> 1"
  shows "- 32768 \<le> (if c < 0 then trunc (c * 32768) else trunc (c * 32767))"
    and "(if c < 0 then trunc (c * 32768) else trunc (c * 32767)) \<le> 32767"
proof -
  have a: "- 32768 \<le> \<lceil>c * 32768\<rceil>"
  proof -
    have "(- 32768 :: rat) \<le> c * 32768" using assms(1) by simp
    then have "\<lceil>(- 32768 :: rat)\<rceil> \<le> \<lceil>c * 32768\<rceil>" by (rule ceiling_mono)
    then show ?thesis by simp
  qed
  have b: "\<lceil>c * 32768\<rceil> \<le> 0" if "c < 0"
  proof -
    have "c * 32768 \<le> 0" using that by simp
    then show ?thesis by (simp add: ceiling_le_iff)
  qed
  have d: "\<lfloor>c * 32767\<rfloor> \<le> 32767"
  proof -
    have "c * 32767 \<le> (32767 :: rat)" using assms(2) by simp
    then have "\<lfloor>c * 32767\<rfloor> \<le> \<lfloor>(32767 :: rat)\<rfloor>" by (rule floor_mono)
    then show ?thesis by simp
  qed
  have e: "0 \<le> \<lfloor>c * 32767\<rfloor>" if "\<not> c < 0"
    using that by simp
  have f: "c * 32768 < 0" if "c < 0" using that by simp
  have g: "\<not> c * 32767 < 0" if "\<not> c < 0" using that by simp
  show "- 32768 \<le> (if c < 0 then trunc (c * 32768) else trunc (c * 32767))"
    using a e f g by (auto simp: trunc_def)
  show "(if c < 0 then trunc (c * 32768) else trunc (c * 32767)) \<le> 32767"
    using b d f g by (auto simp: trunc_def)
qed

lemma scaled_sample_Fin:
  "scaled_sample (Fin r) =
     Fin (let c = max (- 1) (min 1 r) in if c < 0 then c * 32768 else c * 32767)"
  by (simp add: scaled_sample_def Math_min_def Math_max_def Let_def max_def min_def)

lemma signed16:
  fixes v :: int
  assumes "- 32768 \<le> v" and "v \<le> 32767"
  shows "(let u = int (nat (v mod 65536)) in if u < 32768 then u else u - 65536) = v"
proof (cases "0 \<le> v")
  case True
  with assms have "v mod 65536 = v" by simp
  with True assms show ?thesis by (simp add: Let_def)
next
  case False
  have "0 \<le> v + 65536" and "v + 65536 < 65536" using assms False by simp_all
  then have "(v + 65536) mod 65536 = v + 65536" by (rule mod_pos_pos_trivial)
  moreover have "(v + 65536) mod 65536 = v mod 65536" by (rule mod_add_self2)
  ultimately have "v mod 65536 = v + 65536" by simp
  then show ?thesis using False assms by (simp add: Let_def)
qed

lemma ToInt16_bits_less: "ToInt16_bits x < 65536"
  by (cases x) (simp_all add: nat_less_iff)

lemma s16_sample_bytes: "s16_at (sample_bytes x) 0 = spec_pcm16 x"
proof -
  have u: "u16_at (sample_bytes x) 0 = ToInt16_bits (scaled_sample x)"
    by (simp add: sample_bytes_def decode16 ToInt16_bits_less)
  have s: "s16_at (sample_bytes x) 0 =
            (let u = int (ToInt16_bits (scaled_sample x)) in if u < 32768 then u else u - 65536)"
    by (simp only: s16_at_def u)
  show ?thesis
  proof (cases x)
    case (Fin r)
    let ?c = "max (- 1) (min 1 r)"
    let ?v = "if ?c < 0 then trunc (?c * 32768) else trunc (?c * 32767)"
    have c: "- 1 \<le> ?c" "?c \<le> 1" by simp_all
    have bits: "ToInt16_bits (scaled_sample x) = nat (?v mod 65536)"
      by (simp add: Fin scaled_sample_Fin Let_def)
    have "s16_at (sample_bytes x) 0 =
            (let u = int (nat (?v mod 65536)) in if u < 32768 then u else u - 65536)"
      by (simp only: s bits)
    also have "\<dots> = ?v"
      using trunc_bounds [OF c] by (rule signed16)
    also have "\<dots> = spec_pcm16 x"
      by (simp add: Fin Let_def)
    finally show ?thesis .
  next
    case PosInf
    have "scaled_sample PosInf = Fin 32767"
      by (simp add: scaled_sample_def Math_min_def Math_max_def)
    then show ?thesis
      unfolding s by (simp add: PosInf trunc_def)
  next
    case NegInf
    have "scaled_sample NegInf = Fin (- 32768)"
      by (simp add: scaled_sample_def Math_min_def Math_max_def)
    then show ?thesis
      unfolding s by (simp add: NegInf trunc_def)
  next
    case NaN
    have "scaled_sample NaN = NaN"
      by (simp add: scaled_sample_def Math_min_def Math_max_def)
    then show ?thesis
      unfolding s by (simp add: NaN)
  qed
qed


lemma data_nth:
  assumes "i < length_buf buffer" and "c < numberOfChannels buffer" and "b < 2"
  shows "data_bytes buffer ! (i * (numberOfChannels buffer * 2) + (c * 2 + b))
         = sample_bytes (sample_at (channelData buffer ! c) i) ! b"
proof -
  let ?n = "numberOfChannels buffer"
  have "data_bytes buffer ! (i * (?n * 2) + (c * 2 + b))
        = frame_bytes (channelData buffer) ?n ([0..<length_buf buffer] ! i) ! (c * 2 + b)"
    unfolding data_bytes_def
    using assms by (intro nth_concat_uniform) simp_all
  also have "\<dots> = frame_bytes (channelData buffer) ?n i ! (c * 2 + b)"
    using assms(1) by simp
  also have "\<dots> = sample_bytes (sample_at (channelData buffer ! ([0..<?n] ! c)) i) ! b"
    unfolding frame_bytes_def
    using assms by (intro nth_concat_uniform) simp_all
  finally show ?thesis using assms(2) by simp
qed

lemma s16_at_data:
  assumes "consistent buffer" and "i < length_buf buffer" and "c < numberOfChannels buffer"
  shows "s16_at (data_bytes buffer) (2 * (i * numberOfChannels buffer + c))
         = spec_pcm16 (channelData buffer ! c ! i)"
proof -
  let ?n = "numberOfChannels buffer"
  let ?sb = "sample_bytes (sample_at (channelData buffer ! c) i)"
  have e0: "2 * (i * ?n + c) = i * (?n * 2) + (c * 2 + 0)"
    and e1: "2 * (i * ?n + c) + 1 = i * (?n * 2) + (c * 2 + 1)"
    by (simp_all add: algebra_simps)
  have "data_bytes buffer ! (2 * (i * ?n + c)) = ?sb ! 0"
    unfolding e0 using assms(2,3) by (rule data_nth) simp
  moreover have "data_bytes buffer ! (2 * (i * ?n + c) + 1) = ?sb ! (0 + 1)"
    unfolding e1 using data_nth [OF assms(2,3), of 1] by simp
  ultimately have "s16_at (data_bytes buffer) (2 * (i * ?n + c)) = s16_at ?sb 0"
    by (simp only: s16_at_def u16_at_def)
  also have "\<dots> = spec_pcm16 (sample_at (channelData buffer ! c) i)"
    by (rule s16_sample_bytes)
  also have "sample_at (channelData buffer ! c) i = channelData buffer ! c ! i"
    using assms by (simp add: sample_at_def consistent_def list_all_length)
  finally show ?thesis .
qed

lemma s16_at_append_right:
  "length xs \<le> k \<Longrightarrow> s16_at (xs @ ys) k = s16_at ys (k - length xs)"
  by (simp add: s16_at_def u16_at_append_right)

subsection \<open>A concrete run\<close>

text \<open>
  Two frames of two channels at 44100 Hz, with the samples \<open>0.5\<close>, NaN, \<open>-1.5\<close> and
  \<open>+\<infinity>\<close>: the 52 bytes of the file.
\<close>

lemma header_stereo: "header_bytes stereo_buffer =
  [82,73,70,70, 44,0,0,0, 87,65,86,69, 102,109,116,32, 16,0,0,0, 1,0, 2,0, 68,172,0,0,
   16,177,2,0, 4,0, 16,0, 100,97,116,97, 8,0,0,0]"
  by (simp add: header_bytes_def stereo_buffer_def dataBytes_def byteRate_def ascii_def
      ToUint32_def ToUint16_def trunc_def le_bytes32_def le_bytes16_def Let_def)

lemma data_stereo: "data_bytes stereo_buffer = [255,63, 0,0, 0,128, 255,127]"
proof -
  have half: "trunc (32767 / 2) = 16383"
    by (simp add: trunc_def floor_eq_iff)
  have whole: "trunc 32767 = 32767" "trunc (- 32768) = - 32768"
    by (simp_all add: trunc_def)
  have "sample_bytes (Fin (1 / 2)) = [255, 63]" "sample_bytes NaN = [0, 0]"
    "sample_bytes (Fin (- 3 / 2)) = [0, 128]" "sample_bytes PosInf = [255, 127]"
    by (simp_all add: sample_bytes_def scaled_sample_def Math_min_def Math_max_def half
        whole le_bytes16_def Let_def)
  moreover have "[0..<2] = [0, 1]"
    by code_simp
  ultimately show ?thesis
    by (simp add: data_bytes_def frame_bytes_def stereo_buffer_def sample_at_def)
qed


lemma run_stereo: "audioBufferToWav stereo_buffer = Inr
  [82,73,70,70, 44,0,0,0, 87,65,86,69, 102,109,116,32, 16,0,0,0, 1,0, 2,0, 68,172,0,0,
   16,177,2,0, 4,0, 16,0, 100,97,116,97, 8,0,0,0, 255,63, 0,0, 0,128, 255,127]"
proof -
  have "consistent stereo_buffer"
    by (simp add: consistent_def stereo_buffer_def)
  moreover have "44 + dataBytes stereo_buffer \<le> 2 ^ 53 - 1"
    by (simp add: dataBytes_def stereo_buffer_def)
  ultimately have "audioBufferToWav stereo_buffer
                   = Inr (header_bytes stereo_buffer @ data_bytes stereo_buffer)"
    by (rule audioBufferToWav_bytes)
  then show ?thesis by (simp add: header_stereo data_stereo)
qed

subsection \<open>The layout\<close>

lemma header_fields:
  "slice (header_bytes b @ d) 0 4 = ascii ''RIFF''"
  "u32_at (header_bytes b @ d) 4 = ToUint32 (of_nat (36 + dataBytes b))"
  "slice (header_bytes b @ d) 8 4 = ascii ''WAVE''"
  "slice (header_bytes b @ d) 12 4 = ascii ''fmt ''"
  "u32_at (header_bytes b @ d) 16 = ToUint32 16"
  "u16_at (header_bytes b @ d) 20 = ToUint16 1"
  "u16_at (header_bytes b @ d) 22 = ToUint16 (of_nat (numberOfChannels b))"
  "u32_at (header_bytes b @ d) 24 = ToUint32 (sampleRate b)"
  "u32_at (header_bytes b @ d) 28 = ToUint32 (byteRate b)"
  "u16_at (header_bytes b @ d) 32 = ToUint16 (of_nat (numberOfChannels b * 2))"
  "u16_at (header_bytes b @ d) 34 = ToUint16 16"
  "slice (header_bytes b @ d) 36 4 = ascii ''data''"
  "u32_at (header_bytes b @ d) 40 = ToUint32 (of_nat (dataBytes b))"
  by (simp_all add: header_bytes_def read_append decode32_ToUint32 decode16_ToUint16)

text \<open>
  Claim C1, as amended. For every buffer with consistent channel lengths whose header
  values fit their fields (\<open>numberOfChannels * 2 < 2^16\<close>, and the sample rate, the byte
  rate and \<open>36 + dataBytes\<close> below \<open>2^32\<close>), the encoder returns
  \<open>44 + length * numberOfChannels * 2\<close> bytes: \<open>RIFF\<close>, the chunk size \<open>36 + dataBytes\<close>,
  \<open>WAVE\<close>, \<open>fmt \<close>, 16, the format 1, the channel count, the integer part of the sample
  rate, the integer part of the byte rate \<open>sampleRate * numberOfChannels * 2\<close> (the rates
  themselves when the sample rate is a whole number), the block size
  \<open>numberOfChannels * 2\<close>, 16 bits per sample, \<open>data\<close>, and
  \<open>dataBytes = length * numberOfChannels * 2\<close>, all little-endian;
  then, frame after frame and channel after channel within a frame, every sample clamped
  to \<open>[-1, 1]\<close>, scaled by 32768 if negative and by 32767 otherwise, cut to its integer
  part and stored as a signed 16-bit little-endian value, a NaN sample being stored as 0.
\<close>

theorem audioBufferToWav_layout:
  assumes "consistent buffer" and "header_fits buffer"
  shows "\<exists>bytes. audioBufferToWav buffer = Inr bytes
     \<and> length bytes = 44 + dataBytes buffer
     \<and> slice bytes 0 4 = ascii ''RIFF''
     \<and> u32_at bytes 4 = 36 + dataBytes buffer
     \<and> slice bytes 8 4 = ascii ''WAVE''
     \<and> slice bytes 12 4 = ascii ''fmt ''
     \<and> u32_at bytes 16 = 16
     \<and> u16_at bytes 20 = 1
     \<and> u16_at bytes 22 = numberOfChannels buffer
     \<and> u32_at bytes 24 = nat \<lfloor>sampleRate buffer\<rfloor>
     \<and> u32_at bytes 28 = nat \<lfloor>byteRate buffer\<rfloor>
     \<and> u16_at bytes 32 = numberOfChannels buffer * 2
     \<and> u16_at bytes 34 = 16
     \<and> slice bytes 36 4 = ascii ''data''
     \<and> u32_at bytes 40 = dataBytes buffer
     \<and> (\<forall>i < length_buf buffer. \<forall>c < numberOfChannels buffer.
          s16_at bytes (44 + 2 * (i * numberOfChannels buffer + c))
            = spec_pcm16 (channelData buffer ! c ! i))"
proof -
  let ?bytes = "header_bytes buffer @ data_bytes buffer"
  from assms(2) have fits:
    "numberOfChannels buffer * 2 < 65536" "numberOfChannels buffer < 65536"
    "36 + dataBytes buffer < 4294967296" "dataBytes buffer < 4294967296"
    by (simp_all add: header_fits_def)
  from assms(2) have rates:
    "0 \<le> sampleRate buffer" "sampleRate buffer < 4294967296"
    "byteRate buffer < 4294967296"
    by (simp_all add: header_fits_def)
  have "0 \<le> byteRate buffer"
    using rates(1) by (simp add: byteRate_def)
  note rates = rates this
  from fits have "44 + dataBytes buffer \<le> 2 ^ 53 - 1" by simp
  with assms(1) have run: "audioBufferToWav buffer = Inr ?bytes"
    by (rule audioBufferToWav_bytes)
  have len: "length ?bytes = 44 + dataBytes buffer" by simp
  have riff: "slice ?bytes 0 4 = ascii ''RIFF''"
    and wave: "slice ?bytes 8 4 = ascii ''WAVE''"
    and fmt: "slice ?bytes 12 4 = ascii ''fmt ''"
    and data: "slice ?bytes 36 4 = ascii ''data''"
    by (rule header_fields)+
  have chunk: "u32_at ?bytes 4 = 36 + dataBytes buffer"
    using fits by (simp only: header_fields ToUint32_of_nat)
  have sub1: "u32_at ?bytes 16 = 16"
    by (simp only: header_fields ToUint_constants)
  have pcm: "u16_at ?bytes 20 = 1"
    by (simp only: header_fields ToUint_constants)
  have nch: "u16_at ?bytes 22 = numberOfChannels buffer"
    using fits by (simp only: header_fields ToUint16_of_nat)
  have rate: "u32_at ?bytes 24 = nat \<lfloor>sampleRate buffer\<rfloor>"
    using rates by (simp only: header_fields ToUint32_floor)
  have brate: "u32_at ?bytes 28 = nat \<lfloor>byteRate buffer\<rfloor>"
    using rates by (simp only: header_fields ToUint32_floor)
  have align: "u16_at ?bytes 32 = numberOfChannels buffer * 2"
    using fits by (simp only: header_fields ToUint16_of_nat)
  have bits: "u16_at ?bytes 34 = 16"
    by (simp only: header_fields ToUint_constants)
  have dlen: "u32_at ?bytes 40 = dataBytes buffer"
    using fits by (simp only: header_fields ToUint32_of_nat)
  have samples: "\<forall>i < length_buf buffer. \<forall>c < numberOfChannels buffer.
          s16_at ?bytes (44 + 2 * (i * numberOfChannels buffer + c))
            = spec_pcm16 (channelData buffer ! c ! i)"
  proof (intro allI impI)
    fix i c
    assume i: "i < length_buf buffer" and c: "c < numberOfChannels buffer"
    define m where "m = 2 * (i * numberOfChannels buffer + c)"
    have "s16_at ?bytes (44 + m) = s16_at (data_bytes buffer) m"
      by (simp add: s16_at_append_right)
    also have "\<dots> = spec_pcm16 (channelData buffer ! c ! i)"
      unfolding m_def using assms(1) i c by (rule s16_at_data)
    finally show "s16_at ?bytes (44 + 2 * (i * numberOfChannels buffer + c))
            = spec_pcm16 (channelData buffer ! c ! i)"
      by (simp only: m_def)
  qed
  from run len riff chunk wave fmt sub1 pcm nch rate brate align bits data dlen samples
  show ?thesis by blast
qed

text \<open>
  Claim C1 as stated, for every buffer with consistent channel lengths, fails where the
  data reach 4 GiB: for one channel of \<open>2^31\<close> frames the chunk size is
  \<open>36 + 2^32 = 4294967332\<close>, and the 32-bit field holds 36.
\<close>

theorem audioBufferToWav_chunk_size_counterexample:
  "consistent huge_buffer
   \<and> audioBufferToWav huge_buffer = Inr (header_bytes huge_buffer @ data_bytes huge_buffer)
   \<and> 36 + dataBytes huge_buffer = 4294967332
   \<and> u32_at (header_bytes huge_buffer @ data_bytes huge_buffer) 4 = 36"
proof -
  have n: "dataBytes huge_buffer = 4294967296"
    by (simp add: dataBytes_def huge_buffer_def)
  have c: "consistent huge_buffer"
    by (simp add: consistent_def huge_buffer_def)
  have "44 + dataBytes huge_buffer \<le> 2 ^ 53 - 1" by (simp add: n)
  with c have "audioBufferToWav huge_buffer
               = Inr (header_bytes huge_buffer @ data_bytes huge_buffer)"
    by (rule audioBufferToWav_bytes)
  moreover have "u32_at (header_bytes huge_buffer @ data_bytes huge_buffer) 4 = 36"
    by (simp add: header_fields n ToUint32_def trunc_def)
  ultimately show ?thesis using c n by simp
qed


text \<open>
  The theorem at the buffer of the concrete run, and at one frame of one channel at
  22050.5 Hz, where the rate field holds 22050 and the byte-rate field 44101.
\<close>

theorem audioBufferToWav_layout_witness:
  "consistent stereo_buffer \<and> header_fits stereo_buffer
   \<and> (\<exists>bytes. audioBufferToWav stereo_buffer = Inr bytes \<and> length bytes = 52
        \<and> u32_at bytes 4 = 44 \<and> u16_at bytes 22 = 2 \<and> u32_at bytes 24 = 44100
        \<and> u32_at bytes 28 = 176400 \<and> u16_at bytes 32 = 4 \<and> u32_at bytes 40 = 8
        \<and> s16_at bytes 44 = 16383 \<and> s16_at bytes 46 = 0
        \<and> s16_at bytes 48 = - 32768 \<and> s16_at bytes 50 = 32767)
   \<and> consistent fractional_buffer \<and> header_fits fractional_buffer
   \<and> (\<exists>bytes. audioBufferToWav fractional_buffer = Inr bytes \<and> length bytes = 46
        \<and> u32_at bytes 24 = 22050 \<and> u32_at bytes 28 = 44101 \<and> u16_at bytes 32 = 2
        \<and> s16_at bytes 44 = - 8192)"
proof -
  have c: "consistent stereo_buffer"
    by (simp add: consistent_def stereo_buffer_def)
  have f: "header_fits stereo_buffer"
    by (simp add: header_fits_def dataBytes_def byteRate_def stereo_buffer_def)
  have attrs: "length_buf stereo_buffer = 2" "numberOfChannels stereo_buffer = 2"
    "sampleRate stereo_buffer = 44100" "byteRate stereo_buffer = 176400"
    "dataBytes stereo_buffer = 8"
    "channelData stereo_buffer = [[Fin (1 / 2), Fin (- 3 / 2)], [NaN, PosInf]]"
    by (simp_all add: stereo_buffer_def dataBytes_def byteRate_def)
  from audioBufferToWav_layout [OF c f] obtain bytes where
    run: "audioBufferToWav stereo_buffer = Inr bytes"
    and len: "length bytes = 44 + dataBytes stereo_buffer"
    and chunk: "u32_at bytes 4 = 36 + dataBytes stereo_buffer"
    and nch: "u16_at bytes 22 = numberOfChannels stereo_buffer"
    and rate: "u32_at bytes 24 = nat \<lfloor>sampleRate stereo_buffer\<rfloor>"
    and brate: "u32_at bytes 28 = nat \<lfloor>byteRate stereo_buffer\<rfloor>"
    and align: "u16_at bytes 32 = numberOfChannels stereo_buffer * 2"
    and dlen: "u32_at bytes 40 = dataBytes stereo_buffer"
    and samples: "\<forall>i < length_buf stereo_buffer. \<forall>c < numberOfChannels stereo_buffer.
          s16_at bytes (44 + 2 * (i * numberOfChannels stereo_buffer + c))
            = spec_pcm16 (channelData stereo_buffer ! c ! i)"
    by (elim exE conjE)
  from samples have s: "\<And>i c. i < 2 \<Longrightarrow> c < 2 \<Longrightarrow>
      s16_at bytes (44 + 2 * (i * 2 + c))
        = spec_pcm16 ([[Fin (1 / 2), Fin (- 3 / 2)], [NaN, PosInf]] ! c ! i)"
    by (simp add: attrs)
  have half: "trunc (32767 / 2) = 16383"
    by (simp add: trunc_def floor_eq_iff)
  have "s16_at bytes 44 = 16383" using s [of 0 0] by (simp add: half)
  moreover have "s16_at bytes 46 = 0" using s [of 0 1] by simp
  moreover have "s16_at bytes 48 = - 32768" using s [of 1 0] by (simp add: trunc_def)
  moreover have "s16_at bytes 50 = 32767" using s [of 1 1] by simp
  ultimately have whole: "\<exists>bytes. audioBufferToWav stereo_buffer = Inr bytes \<and> length bytes = 52
        \<and> u32_at bytes 4 = 44 \<and> u16_at bytes 22 = 2 \<and> u32_at bytes 24 = 44100
        \<and> u32_at bytes 28 = 176400 \<and> u16_at bytes 32 = 4 \<and> u32_at bytes 40 = 8
        \<and> s16_at bytes 44 = 16383 \<and> s16_at bytes 46 = 0
        \<and> s16_at bytes 48 = - 32768 \<and> s16_at bytes 50 = 32767"
    using run len chunk nch rate brate align dlen by (auto simp: attrs)
  have c': "consistent fractional_buffer"
    by (simp add: consistent_def fractional_buffer_def)
  have f': "header_fits fractional_buffer"
    by (simp add: header_fits_def dataBytes_def byteRate_def fractional_buffer_def)
  have attrs': "length_buf fractional_buffer = 1" "numberOfChannels fractional_buffer = 1"
    "sampleRate fractional_buffer = 44101 / 2" "byteRate fractional_buffer = 44101"
    "dataBytes fractional_buffer = 2"
    "channelData fractional_buffer = [[Fin (- 1 / 4)]]"
    by (simp_all add: fractional_buffer_def dataBytes_def byteRate_def)
  have fl: "\<lfloor>(44101 :: rat) / 2\<rfloor> = 22050"
    by (simp add: floor_eq_iff)
  from audioBufferToWav_layout [OF c' f'] obtain bytes' where
    run': "audioBufferToWav fractional_buffer = Inr bytes'"
    and len': "length bytes' = 44 + dataBytes fractional_buffer"
    and rate': "u32_at bytes' 24 = nat \<lfloor>sampleRate fractional_buffer\<rfloor>"
    and brate': "u32_at bytes' 28 = nat \<lfloor>byteRate fractional_buffer\<rfloor>"
    and align': "u16_at bytes' 32 = numberOfChannels fractional_buffer * 2"
    and samples': "\<forall>i < length_buf fractional_buffer.
          \<forall>c < numberOfChannels fractional_buffer.
          s16_at bytes' (44 + 2 * (i * numberOfChannels fractional_buffer + c))
            = spec_pcm16 (channelData fractional_buffer ! c ! i)"
    by (elim exE conjE)
  from samples' have "s16_at bytes' (44 + 2 * (0 * 1 + 0)) = spec_pcm16 ([[Fin (- 1 / 4)]] ! 0 ! 0)"
    by (simp add: attrs')
  then have "s16_at bytes' 44 = - 8192" by (simp add: trunc_def)
  then have fractional: "\<exists>bytes. audioBufferToWav fractional_buffer = Inr bytes
        \<and> length bytes = 46 \<and> u32_at bytes 24 = 22050 \<and> u32_at bytes 28 = 44101
        \<and> u16_at bytes 32 = 2 \<and> s16_at bytes 44 = - 8192"
    using run' len' rate' brate' align' by (auto simp: attrs' fl)
  from c f whole c' f' fractional show ?thesis by blast
qed

end
